theory Spec2Isabelle
  imports Main "HOL-Library.Sublist"
begin

section \<open>Data model\<close>

subsection \<open>Payload values\<close>

text \<open>
  The \<open>data\<close> payload of a node is JSON data. The renderer reads it only through
  optional chaining (\<open>a?.b\<close>), the \<open>||\<close> operator, \<open>typeof v === "object"\<close> and
  string conversion, so these four operations are modelled. The leaves the source casts to
  \<open>string\<close> (\<open>uri\<close>, \<open>url\<close>, \<open>id\<close>, a title) are strings.
\<close>

datatype jsval =
    JUndefined
  | JNull
  | JStr string
  | JObj "(string \<times> jsval) list"

text \<open>\<open>v?.[k]\<close>: the property of an object, \<open>undefined\<close> when \<open>v\<close> is \<open>undefined\<close> or
  \<open>null\<close>, when the key is missing, and on a string (none of the keys the renderer reads
  is a property of a string).\<close>

fun js_get :: "jsval \<Rightarrow> string \<Rightarrow> jsval" where
  "js_get (JObj kvs) k = (case map_of kvs k of Some v \<Rightarrow> v | None \<Rightarrow> JUndefined)"
| "js_get JUndefined k = JUndefined"
| "js_get JNull k = JUndefined"
| "js_get (JStr s) k = JUndefined"

fun js_truthy :: "jsval \<Rightarrow> bool" where
  "js_truthy JUndefined = False"
| "js_truthy JNull = False"
| "js_truthy (JStr s) = (s \<noteq> [])"
| "js_truthy (JObj kvs) = True"

text \<open>\<open>a || b\<close>\<close>

definition js_or :: "jsval \<Rightarrow> jsval \<Rightarrow> jsval" where
  "js_or a b = (if js_truthy a then a else b)"

text \<open>\<open>typeof v === "object"\<close> (true of \<open>null\<close> as well)\<close>

fun js_is_object :: "jsval \<Rightarrow> bool" where
  "js_is_object (JObj kvs) = True"
| "js_is_object JNull = True"
| "js_is_object JUndefined = False"
| "js_is_object (JStr s) = False"

text \<open>\<open>String(v)\<close>, which is also what a template literal applies\<close>

fun js_toString :: "jsval \<Rightarrow> string" where
  "js_toString (JStr s) = s"
| "js_toString (JObj kvs) = ''[object Object]''"
| "js_toString JUndefined = ''undefined''"
| "js_toString JNull = ''null''"

subsection \<open>Nodes\<close>

text \<open>
  The interfaces \<open>RichTextBlock\<close>, \<open>RichTextInline\<close> and \<open>RichTextText\<close> of the
  declarations (\<open>types.ts\<close>, at the end of \<open>src/index.ts\<close>). A Block has a node-type
  string, a payload and \<open>content: (RichTextBlock | RichTextInline | RichTextText)[]\<close>; an
  Inline has the same fields with \<open>content: RichTextText[]\<close>; a Text leaf has the node
  type \<open>text\<close>, a string \<open>value\<close>, \<open>marks\<close> and a payload, and no \<open>content\<close> field.
  The renderer tells the three apart only by \<open>nodeType\<close> and by whether \<open>content\<close> is
  present, and its casts change nothing at run time, so one constructor carries the fields
  of all three: \<open>content\<close> is \<open>None\<close> where the object has no such field, \<open>marks\<close>
  is optional because the renderer reads it with \<open>?.\<close>, and \<open>nodeValue\<close> (the field
  \<open>value\<close>) is read only from a node whose type is \<open>text\<close>.
\<close>

datatype node =
  Node (nodeType: string) (data: jsval) (content: "node list option")
       (nodeValue: string) (marks: "string list option")

definition textNode :: "string \<Rightarrow> string list \<Rightarrow> node" where
  "textNode v ms = Node ''text'' (JObj []) None v (Some ms)"

definition blockNode :: "string \<Rightarrow> jsval \<Rightarrow> node list \<Rightarrow> node" where
  "blockNode ty d cs = Node ty d (Some cs) [] None"

definition paragraphNode :: "node list \<Rightarrow> node" where
  "paragraphNode texts = blockNode ''paragraph'' (JObj []) texts"

text \<open>A document is the root node: node type \<open>document\<close>, its \<open>content\<close> the top-level
  blocks.\<close>

definition makeDoc :: "node list \<Rightarrow> node" where
  "makeDoc cs = Node ''document'' (JObj []) (Some cs) [] None"

subsection \<open>Formatting context, segments, render blocks\<close>

datatype listKind = unordered | ordered

record BlockContext =
  ctx_headingLevel :: nat
  ctx_listType :: "listKind option"
  ctx_listIndent :: nat
  isBlockquote :: bool

definition DEFAULT_CONTEXT :: BlockContext where
  "DEFAULT_CONTEXT =
     \<lparr>ctx_headingLevel = 0, ctx_listType = None, ctx_listIndent = 0, isBlockquote = False\<rparr>"

record segment =
  seg_text :: string
  bold :: bool
  italic :: bool
  underline :: bool
  code :: bool
  headingLevel :: nat
  listType :: "listKind option"
  listIndent :: nat
  hyperlink :: "string option"

record TableRow =
  cells :: "segment list list"
  isHeader :: bool

datatype RenderBlock =
    TextBlock "segment list"
  | ImageBlock string string
  | HrBlock
  | TableBlock "TableRow list"

record RenderPlan =
  blocks :: "RenderBlock list"

subsection \<open>Errors\<close>

text \<open>The only way the renderer can fail is a \<open>TypeError\<close>: \<open>for (const x of v)\<close> with
  \<open>v\<close> undefined.\<close>

datatype error = TypeError

fun mapE :: "('a \<Rightarrow> error + 'b) \<Rightarrow> 'a list \<Rightarrow> error + 'b list" where
  "mapE f [] = Inr []"
| "mapE f (x # xs) =
     (case f x of
        Inl e \<Rightarrow> Inl e
      | Inr y \<Rightarrow> (case mapE f xs of Inl e \<Rightarrow> Inl e | Inr ys \<Rightarrow> Inr (y # ys)))"

text \<open>\<open>for (const x of xs) out.push(...f(x))\<close>\<close>

definition concatMapE :: "('a \<Rightarrow> error + 'b list) \<Rightarrow> 'a list \<Rightarrow> error + 'b list" where
  "concatMapE f xs = (case mapE f xs of Inl e \<Rightarrow> Inl e | Inr yss \<Rightarrow> Inr (concat yss))"

text \<open>\<open>for (const x of v)\<close> where \<open>v\<close> may be undefined\<close>

definition iterate :: "'a list option \<Rightarrow> ('a list \<Rightarrow> error + 'b) \<Rightarrow> error + 'b" where
  "iterate v body = (case v of None \<Rightarrow> Inl TypeError | Some xs \<Rightarrow> body xs)"

section \<open>The renderer\<close>

subsection \<open>Mark resolver and inline resolver\<close>

text \<open>\<open>node.marks?.some((m) => m.type === markType) ?? false\<close>; a mark is given by its
  type.\<close>

definition hasMarks :: "node \<Rightarrow> string \<Rightarrow> bool" where
  "hasMarks node markType =
     (case marks node of None \<Rightarrow> False | Some ms \<Rightarrow> \<exists>m \<in> set ms. m = markType)"

definition textNodeToSegment :: "node \<Rightarrow> BlockContext \<Rightarrow> segment" where
  "textNodeToSegment node ctx =
     \<lparr>seg_text = nodeValue node,
      bold = hasMarks node ''bold'',
      italic = hasMarks node ''italic'',
      underline = hasMarks node ''underline'',
      code = hasMarks node ''code'',
      headingLevel = ctx_headingLevel ctx,
      listType = ctx_listType ctx,
      listIndent = ctx_listIndent ctx,
      hyperlink = None\<rparr>"

text \<open>The flag \<open>isHyperlink\<close> and the value of \<open>href\<close> in \<open>collectSegmentsFromInline\<close>:
  the \<open>uri\<close> of the payload, else the \<open>url\<close> of the file of its target, else \<open>null\<close>;
  \<open>null\<close> for a node that is not a hyperlink.\<close>

definition isHyperlink :: "string \<Rightarrow> bool" where
  "isHyperlink ty \<longleftrightarrow>
     ty = ''hyperlink'' \<or> ty = ''entry-hyperlink'' \<or> ty = ''asset-hyperlink''"

definition resolveHref :: "node \<Rightarrow> jsval" where
  "resolveHref inline =
     (if isHyperlink (nodeType inline)
      then js_or (js_get (data inline) ''uri'')
             (js_or (js_get (js_get (js_get (js_get (data inline) ''target'') ''fields'')
                       ''file'') ''url'')
                JNull)
      else JNull)"

text \<open>The title of an embedded entry: localized title, plain title, entry id, \<open>entry\<close>.\<close>

definition localizedTitle :: "jsval \<Rightarrow> jsval" where
  "localizedTitle target =
     (let title = js_get (js_get target ''fields'') ''title''
      in if js_is_object title then js_get title ''en-US'' else title)"

definition entryTitle :: "jsval \<Rightarrow> jsval" where
  "entryTitle target =
     js_or (localizedTitle target) (js_or (js_get (js_get target ''sys'') ''id'') (JStr ''entry''))"

text \<open>What the loop of \<open>collectSegmentsFromInline\<close> does to the segment of a Text child:
  \<open>if (href) { seg.hyperlink = href; seg.underline = true; }\<close>.\<close>

definition linkSegment :: "jsval \<Rightarrow> segment \<Rightarrow> segment" where
  "linkSegment href seg =
     (if js_truthy href then seg\<lparr>hyperlink := Some (js_toString href), underline := True\<rparr>
      else seg)"

text \<open>The segments of the Text children in order, then the placeholder of an embedded
  inline entry.\<close>

definition collectSegmentsFromInline :: "node \<Rightarrow> BlockContext \<Rightarrow> error + segment list" where
  "collectSegmentsFromInline inline ctx =
     iterate (content inline) (\<lambda>children.
       let href = resolveHref inline;
           segments = map (\<lambda>child. linkSegment href (textNodeToSegment child ctx))
                       (filter (\<lambda>child. nodeType child = ''text'') children)
       in if nodeType inline = ''embedded-entry-inline''
          then Inr (segments @
                 [\<lparr>seg_text = ''['' @ js_toString (entryTitle (js_get (data inline) ''target'')) @ '']'',
                   bold = False, italic = True, underline = False, code = False,
                   headingLevel = ctx_headingLevel ctx,
                   listType = ctx_listType ctx,
                   listIndent = ctx_listIndent ctx,
                   hyperlink = None\<rparr>])
          else Inr segments)"

subsection \<open>Block walker\<close>

definition isBlockNode :: "string \<Rightarrow> bool" where
  "isBlockNode ty \<longleftrightarrow> ty \<in> set
     [''paragraph'', ''heading-1'', ''heading-2'', ''heading-3'', ''heading-4'', ''heading-5'',
      ''heading-6'', ''blockquote'', ''unordered-list'', ''ordered-list'', ''list-item'',
      ''table'', ''table-row'', ''table-cell'', ''table-header-cell'', ''hr'',
      ''embedded-asset-block'', ''embedded-entry-block'']"

text \<open>The regular expression \<open>^heading-(\d)$\<close> and \<open>parseInt\<close> of the digit.\<close>

definition isDigit :: "char \<Rightarrow> bool" where
  "isDigit c \<longleftrightarrow> (48::nat) \<le> of_char c \<and> (of_char c :: nat) \<le> 57"

definition headingLevelFromNodeType :: "string \<Rightarrow> nat" where
  "headingLevelFromNodeType ty =
     (if length ty = 9 \<and> take 8 ty = ''heading-'' \<and> isDigit (ty ! 8)
      then of_char (ty ! 8) - 48 else 0)"

text \<open>\<open>Array.prototype.join\<close> on strings.\<close>

fun join :: "string \<Rightarrow> string list \<Rightarrow> string" where
  "join sep [] = []"
| "join sep [x] = x"
| "join sep (x # y # ys) = x @ sep @ join sep (y # ys)"

text \<open>The segment the table branch of \<open>processBlock\<close> pushes for one row.\<close>

definition tableRowSegment :: "string \<Rightarrow> segment" where
  "tableRowSegment t =
     \<lparr>seg_text = t, bold = False, italic = False, underline = False, code = False,
      headingLevel = 0, listType = None, listIndent = 0, hyperlink = None\<rparr>"

text \<open>The walker recurses through \<open>mapE\<close>, \<open>concatMapE\<close> and \<open>iterate\<close> into the
  children of a node, which are smaller than the node.\<close>

lemma mapE_cong [fundef_cong]:
  "xs = ys \<Longrightarrow> (\<And>x. x \<in> set ys \<Longrightarrow> f x = g x) \<Longrightarrow> mapE f xs = mapE g ys"
  by (induction ys arbitrary: xs) (auto split: sum.splits)

lemma concatMapE_cong [fundef_cong]:
  "xs = ys \<Longrightarrow> (\<And>x. x \<in> set ys \<Longrightarrow> f x = g x) \<Longrightarrow> concatMapE f xs = concatMapE g ys"
  unfolding concatMapE_def by (simp cong: mapE_cong)

lemma iterate_cong [fundef_cong]:
  "v = w \<Longrightarrow> (\<And>xs. w = Some xs \<Longrightarrow> f xs = g xs) \<Longrightarrow> iterate v f = iterate w g"
  unfolding iterate_def by (auto split: option.splits)

lemma content_size:
  "content b = Some cs \<Longrightarrow> c \<in> set cs \<Longrightarrow> size c < size b"
  by (cases b) (auto dest: size_list_estimation' [where f = size and y = "size c"])

lemma content_size2:
  "content b = Some cs \<Longrightarrow> c \<in> set cs \<Longrightarrow> content c = Some ds \<Longrightarrow> d \<in> set ds
   \<Longrightarrow> size d < size b"
  using content_size [of b cs c] content_size [of c ds d] by simp

text \<open>
  \<open>processBlock\<close> and \<open>collectSegmentsFromBlock\<close>, branch by branch in the order of the
  source. Every \<open>for (const x of node.content)\<close> is an \<open>iterate\<close>, which fails when the
  node has no \<open>content\<close>; a cast \<open>child as RichTextBlock\<close> changes nothing at run time.
\<close>

function processBlock :: "node \<Rightarrow> BlockContext \<Rightarrow> error + segment list"
  and collectSegmentsFromBlock :: "node \<Rightarrow> BlockContext \<Rightarrow> error + segment list"
where
  "processBlock block parentCtx =
     (if prefix ''heading-'' (nodeType block) then
        collectSegmentsFromBlock block
          (parentCtx\<lparr>ctx_headingLevel := headingLevelFromNodeType (nodeType block)\<rparr>)
      else if nodeType block = ''paragraph'' then
        collectSegmentsFromBlock block parentCtx
      else if nodeType block = ''blockquote'' then
        iterate (content block)
          (concatMapE (\<lambda>child. processBlock child (parentCtx\<lparr>isBlockquote := True\<rparr>)))
      else if nodeType block = ''unordered-list'' \<or> nodeType block = ''ordered-list'' then
        iterate (content block)
          (concatMapE (\<lambda>child.
             if nodeType child = ''list-item'' then
               iterate (content child)
                 (concatMapE (\<lambda>listChild.
                    processBlock listChild
                      (parentCtx\<lparr>ctx_listType :=
                                   Some (if nodeType block = ''unordered-list''
                                         then unordered else ordered),
                                 ctx_listIndent := ctx_listIndent parentCtx + 1\<rparr>)))
             else Inr []))
      else if nodeType block = ''table'' then
        iterate (content block)
          (concatMapE (\<lambda>row.
             if nodeType row = ''table-row'' then
               (case iterate (content row)
                       (mapE (\<lambda>cell.
                          case processBlock cell parentCtx of
                            Inl e \<Rightarrow> Inl e
                          | Inr cellSegs \<Rightarrow> Inr (concat (map seg_text cellSegs)))) of
                  Inl e \<Rightarrow> Inl e
                | Inr cellTexts \<Rightarrow> Inr [tableRowSegment (join [CHR 0x09] cellTexts)])
             else Inr []))
      else if nodeType block = ''table-cell'' \<or> nodeType block = ''table-header-cell'' then
        iterate (content block) (concatMapE (\<lambda>child. processBlock child parentCtx))
      else collectSegmentsFromBlock block parentCtx)"
| "collectSegmentsFromBlock block ctx =
     iterate (content block)
       (concatMapE (\<lambda>child.
          if nodeType child = ''text'' then Inr [textNodeToSegment child ctx]
          else if content child \<noteq> None \<and> \<not> isBlockNode (nodeType child) then
            collectSegmentsFromInline child ctx
          else if isBlockNode (nodeType child) then processBlock child ctx
          else Inr []))"
  by pat_completeness auto
termination
  by (relation "measure (\<lambda>x. case x of Inl (b, c) \<Rightarrow> 2 * size b + 1 | Inr (b, c) \<Rightarrow> 2 * size b)")
     (auto dest: content_size content_size2)

declare processBlock.simps [simp del] collectSegmentsFromBlock.simps [simp del]

subsection \<open>Segment merger\<close>

definition sameFormatting :: "segment \<Rightarrow> segment \<Rightarrow> bool" where
  "sameFormatting prev cur \<longleftrightarrow>
     bold prev = bold cur \<and>
     italic prev = italic cur \<and>
     underline prev = underline cur \<and>
     code prev = code cur \<and>
     headingLevel prev = headingLevel cur \<and>
     listType prev = listType cur \<and>
     listIndent prev = listIndent cur \<and>
     hyperlink prev = hyperlink cur"

text \<open>The loop of \<open>mergeAdjacentSegments\<close>: \<open>merged\<close> is the array built so far (never
  empty), the second argument the segments from index \<open>i\<close> on.\<close>

fun mergeLoop :: "segment list \<Rightarrow> segment list \<Rightarrow> segment list" where
  "mergeLoop merged [] = merged"
| "mergeLoop merged (cur # rest) =
     (let prev = last merged
      in if sameFormatting prev cur
         then mergeLoop (butlast merged @ [prev\<lparr>seg_text := seg_text prev @ seg_text cur\<rparr>]) rest
         else mergeLoop (merged @ [cur]) rest)"

definition mergeAdjacentSegments :: "segment list \<Rightarrow> segment list" where
  "mergeAdjacentSegments segments =
     (case segments of [] \<Rightarrow> segments | first # rest \<Rightarrow> mergeLoop [first] rest)"

subsection \<open>Table extractor\<close>

text \<open>The inner loop of \<open>processTableToRows\<close> over the cells of one row, with the array
  \<open>cells\<close> and the flag \<open>isHeader\<close> as state.\<close>

fun cellLoop :: "node list \<Rightarrow> segment list list \<Rightarrow> bool \<Rightarrow> error + segment list list \<times> bool" where
  "cellLoop [] cs hdr = Inr (cs, hdr)"
| "cellLoop (cell # rest) cs hdr =
     (let hdr' = (if nodeType cell = ''table-header-cell'' then True else hdr)
      in case iterate (content cell) (concatMapE (\<lambda>child. processBlock child DEFAULT_CONTEXT)) of
           Inl e \<Rightarrow> Inl e
         | Inr cellSegments \<Rightarrow> cellLoop rest (cs @ [mergeAdjacentSegments cellSegments]) hdr')"

text \<open>The outer loop over the children of the table, with the array \<open>rows\<close> as state.\<close>

fun rowLoop :: "node list \<Rightarrow> TableRow list \<Rightarrow> error + TableRow list" where
  "rowLoop [] rows = Inr rows"
| "rowLoop (row # rest) rows =
     (if nodeType row \<noteq> ''table-row'' then rowLoop rest rows
      else case iterate (content row) (\<lambda>cellNodes. cellLoop cellNodes [] False) of
             Inl e \<Rightarrow> Inl e
           | Inr (cs, hdr) \<Rightarrow> rowLoop rest (rows @ [\<lparr>cells = cs, isHeader = hdr\<rparr>]))"

definition processTableToRows :: "node \<Rightarrow> error + TableRow list" where
  "processTableToRows tableBlock = iterate (content tableBlock) (\<lambda>rowNodes. rowLoop rowNodes [])"

subsection \<open>Plan assembler\<close>

text \<open>The file of an embedded asset: \<open>file["en-US"] || file\<close>, and its URL with \<open>https:\<close>
  put in front when there is one.\<close>

definition assetFile :: "jsval \<Rightarrow> jsval" where
  "assetFile target =
     (let file = js_get (js_get target ''fields'') ''file''
      in js_or (js_get file ''en-US'') file)"

definition assetUrl :: "jsval \<Rightarrow> string option" where
  "assetUrl target =
     (let url = js_get (assetFile target) ''url''
      in if js_truthy url then Some (''https:'' @ js_toString url) else None)"

text \<open>The body of the loop of \<open>documentToRenderPlan\<close>: the render blocks one top-level
  block pushes.\<close>

definition renderTopBlock :: "node \<Rightarrow> error + RenderBlock list" where
  "renderTopBlock topBlock =
     (if nodeType topBlock = ''table'' then
        (case processTableToRows topBlock of
           Inl e \<Rightarrow> Inl e
         | Inr rows \<Rightarrow> if length rows > 0 then Inr [TableBlock rows] else Inr [])
      else if nodeType topBlock = ''embedded-asset-block'' then
        (let target = js_get (data topBlock) ''target'';
             title = js_or (localizedTitle target) (JStr ''image'')
         in case assetUrl target of
              Some url \<Rightarrow> Inr [ImageBlock url (js_toString title)]
            | None \<Rightarrow> Inr [])
      else if nodeType topBlock = ''embedded-entry-block'' then
        (let title = entryTitle (js_get (data topBlock) ''target'')
         in Inr [TextBlock
              [\<lparr>seg_text = ''[Embedded: '' @ js_toString title @ '']'',
                bold = False, italic = True, underline = False, code = False,
                headingLevel = 0, listType = None, listIndent = 0, hyperlink = None\<rparr>]])
      else if nodeType topBlock = ''hr'' then Inr [HrBlock]
      else
        (case processBlock topBlock DEFAULT_CONTEXT of
           Inl e \<Rightarrow> Inl e
         | Inr segments \<Rightarrow>
             if length segments > 0 then Inr [TextBlock (mergeAdjacentSegments segments)]
             else Inr []))"

definition documentToRenderPlan :: "node \<Rightarrow> error + RenderPlan" where
  "documentToRenderPlan doc =
     (case iterate (content doc) (concatMapE renderTopBlock) of
        Inl e \<Rightarrow> Inl e
      | Inr bs \<Rightarrow> Inr \<lparr>blocks = bs\<rparr>)"

subsection \<open>Plain-text assembler\<close>

text \<open>The body of the loop of \<open>richTextToPlainString\<close>: the lines one top-level block
  pushes.\<close>

definition plainLines :: "node \<Rightarrow> error + string list" where
  "plainLines block =
     (if nodeType block = ''hr'' then Inr [''---'']
      else if nodeType block = ''embedded-asset-block'' then
        (let title = js_or (localizedTitle (js_get (data block) ''target'')) (JStr ''[image]'')
         in Inr [''['' @ js_toString title @ '']''])
      else if nodeType block = ''embedded-entry-block'' then
        (let title = entryTitle (js_get (data block) ''target'')
         in Inr [''[Embedded: '' @ js_toString title @ '']''])
      else
        (case processBlock block DEFAULT_CONTEXT of
           Inl e \<Rightarrow> Inl e
         | Inr segments \<Rightarrow>
             (let lineText = concat (map seg_text segments)
              in if lineText \<noteq> [] then Inr [lineText] else Inr [])))"

text \<open>The argument is \<open>None\<close> for a \<open>null\<close> or \<open>undefined\<close> document.\<close>

definition richTextToPlainString :: "node option \<Rightarrow> error + string" where
  "richTextToPlainString doc =
     (case doc of
        None \<Rightarrow> Inr []
      | Some d \<Rightarrow>
          (case content d of
             None \<Rightarrow> Inr []
           | Some topBlocks \<Rightarrow>
               (case concatMapE plainLines topBlocks of
                  Inl e \<Rightarrow> Inl e
                | Inr lines \<Rightarrow> Inr (join [CHR 0x0A] lines))))"

section \<open>The reference merger of the specification\<close>

text \<open>The eight formatting fields of a segment; the text is not among them.\<close>

definition formatting ::
  "segment \<Rightarrow> bool \<times> bool \<times> bool \<times> bool \<times> nat \<times> listKind option \<times> nat \<times> string option" where
  "formatting s =
     (bold s, italic s, underline s, code s, headingLevel s, listType s, listIndent s, hyperlink s)"

text \<open>
  The linear scan as the specification words it: \<open>acc\<close> is the last accumulated segment;
  a segment that matches it on all formatting fields has its text concatenated into it,
  any other segment closes it and starts a new accumulated segment.
\<close>

fun referenceScan :: "segment \<Rightarrow> segment list \<Rightarrow> segment list" where
  "referenceScan acc [] = [acc]"
| "referenceScan acc (s # rest) =
     (if formatting acc = formatting s
      then referenceScan (acc\<lparr>seg_text := seg_text acc @ seg_text s\<rparr>) rest
      else acc # referenceScan s rest)"

definition referenceMerge :: "segment list \<Rightarrow> segment list" where
  "referenceMerge segs = (case segs of [] \<Rightarrow> [] | s # rest \<Rightarrow> referenceScan s rest)"

section \<open>Definitions for the statements\<close>

subsection \<open>Results of a walk\<close>

text \<open>A property of every segment of a result; a failed walk has no segments.\<close>

definition holds :: "('a \<Rightarrow> bool) \<Rightarrow> error + 'a list \<Rightarrow> bool" where
  "holds P r = (case r of Inl e \<Rightarrow> True | Inr xs \<Rightarrow> list_all P xs)"

text \<open>All segments of a render block (those of a table are the segments of its cells), and
  of a plan.\<close>

fun blockSegments :: "RenderBlock \<Rightarrow> segment list" where
  "blockSegments (TextBlock segs) = segs"
| "blockSegments (TableBlock rows) = concat (concat (map cells rows))"
| "blockSegments (ImageBlock url title) = []"
| "blockSegments HrBlock = []"

definition planSegments :: "RenderPlan \<Rightarrow> segment list" where
  "planSegments plan = concat (map blockSegments (blocks plan))"

text \<open>The segment \<open>documentToRenderPlan\<close> builds for an embedded entry, with its text.\<close>

definition entryPlaceholder :: "string \<Rightarrow> segment" where
  "entryPlaceholder t =
     \<lparr>seg_text = t, bold = False, italic = True, underline = False, code = False,
      headingLevel = 0, listType = None, listIndent = 0, hyperlink = None\<rparr>"

text \<open>The node types that the loop of \<open>documentToRenderPlan\<close> does not hand to the
  walker.\<close>

definition isSpecialTopBlock :: "string \<Rightarrow> bool" where
  "isSpecialTopBlock ty \<longleftrightarrow>
     ty = ''table'' \<or> ty = ''embedded-asset-block'' \<or> ty = ''embedded-entry-block'' \<or> ty = ''hr''"

subsection \<open>The branches of \<open>processBlock\<close>\<close>

text \<open>The node types that reach the fallback at the end of \<open>processBlock\<close>.\<close>

definition isFallback :: "string \<Rightarrow> bool" where
  "isFallback ty \<longleftrightarrow>
     \<not> prefix ''heading-'' ty \<and> ty \<noteq> ''paragraph'' \<and> ty \<noteq> ''blockquote'' \<and>
     ty \<noteq> ''unordered-list'' \<and> ty \<noteq> ''ordered-list'' \<and> ty \<noteq> ''table'' \<and>
     ty \<noteq> ''table-cell'' \<and> ty \<noteq> ''table-header-cell''"

text \<open>\<open>nodeType === "unordered-list" ? "unordered" : "ordered"\<close>, as in the list branch.\<close>

definition listKindOf :: "string \<Rightarrow> listKind" where
  "listKindOf ty = (if ty = ''unordered-list'' then unordered else ordered)"

text \<open>The cell texts of one row in the table branch of \<open>processBlock\<close>.\<close>

definition rowText :: "node \<Rightarrow> BlockContext \<Rightarrow> error + string list" where
  "rowText row c =
     iterate (content row)
       (mapE (\<lambda>cell. case processBlock cell c of
                       Inl e \<Rightarrow> Inl e
                     | Inr cellSegs \<Rightarrow> Inr (concat (map seg_text cellSegs))))"

subsection \<open>Hyperlinks\<close>

definition linkUnderlined :: "segment \<Rightarrow> bool" where
  "linkUnderlined s \<longleftrightarrow> (hyperlink s \<noteq> None \<longrightarrow> underline s)"


subsection \<open>Headings\<close>

text \<open>Some node of the subtree, the node itself included, has a heading node type.\<close>

fun hasHeading :: "node \<Rightarrow> bool" where
  "hasHeading (Node ty d c v m) \<longleftrightarrow>
     prefix ''heading-'' ty \<or> (case c of None \<Rightarrow> False | Some cs \<Rightarrow> \<exists>x \<in> set cs. hasHeading x)"

definition levelIn :: "nat \<Rightarrow> segment \<Rightarrow> bool" where
  "levelIn h s \<longleftrightarrow> headingLevel s = h \<or> headingLevel s = 0"

definition headingScenario :: node where
  "headingScenario = blockNode ''heading-1'' (JObj []) [textNode ''Title'' []]"

definition headingInListScenario :: node where
  "headingInListScenario =
     blockNode ''unordered-list'' (JObj [])
       [blockNode ''list-item'' (JObj [])
          [blockNode ''heading-2'' (JObj []) [textNode ''Sub'' []]]]"

subsection \<open>Lists\<close>

definition isListType :: "string \<Rightarrow> bool" where
  "isListType ty \<longleftrightarrow> ty = ''unordered-list'' \<or> ty = ''ordered-list''"

definition isListItem :: "node \<Rightarrow> bool" where
  "isListItem child \<longleftrightarrow> nodeType child = ''list-item''"

text \<open>The context \<open>k\<close> levels of list items down, the innermost list being of kind
  \<open>kind\<close>.\<close>

definition listCtx :: "listKind \<Rightarrow> nat \<Rightarrow> BlockContext \<Rightarrow> BlockContext" where
  "listCtx kind k c = c\<lparr>ctx_listType := Some kind, ctx_listIndent := ctx_listIndent c + k\<rparr>"

text \<open>\<open>listNested outer k kind inner\<close>: \<open>inner\<close> is a content block of a list item of a
  list of kind \<open>kind\<close>, which is itself \<open>k - 1\<close> levels of list items below the list
  \<open>outer\<close>.\<close>

inductive listNested :: "node \<Rightarrow> nat \<Rightarrow> listKind \<Rightarrow> node \<Rightarrow> bool" where
  item:
    "\<lbrakk>isListType (nodeType outer); content outer = Some items; li \<in> set items; isListItem li;
      content li = Some bs; inner \<in> set bs\<rbrakk>
     \<Longrightarrow> listNested outer 1 (listKindOf (nodeType outer)) inner"
| deeper:
    "\<lbrakk>listNested outer k kind mid;
      isListType (nodeType mid); content mid = Some items; li \<in> set items; isListItem li;
      content li = Some bs; inner \<in> set bs\<rbrakk>
     \<Longrightarrow> listNested outer (Suc k) (listKindOf (nodeType mid)) inner"

text \<open>An ordered list in the second block of an item of an unordered list, whose first
  child is not a list item.\<close>

definition listScenarioInner :: node where
  "listScenarioInner = paragraphNode [textNode ''b'' []]"

definition listScenarioMid :: node where
  "listScenarioMid =
     blockNode ''ordered-list'' (JObj []) [blockNode ''list-item'' (JObj []) [listScenarioInner]]"

definition listScenarioOuter :: node where
  "listScenarioOuter =
     blockNode ''unordered-list'' (JObj [])
       [textNode ''skipped'' [],
        blockNode ''list-item'' (JObj []) [paragraphNode [textNode ''a'' []], listScenarioMid]]"

subsection \<open>Tables\<close>

text \<open>
  The table extractor as the specification words it: for each \<open>table-row\<close> child a row,
  header iff one of its direct cell children is a header cell; for each cell the children
  walked with the root context and the result merged.
\<close>

definition walkCell :: "node \<Rightarrow> error + segment list" where
  "walkCell cell =
     (case iterate (content cell) (concatMapE (\<lambda>child. processBlock child DEFAULT_CONTEXT)) of
        Inl e \<Rightarrow> Inl e
      | Inr cellSegments \<Rightarrow> Inr (mergeAdjacentSegments cellSegments))"

definition hasHeaderCell :: "node list \<Rightarrow> bool" where
  "hasHeaderCell cellNodes \<longleftrightarrow> (\<exists>cell \<in> set cellNodes. nodeType cell = ''table-header-cell'')"

definition tableRowOf :: "node \<Rightarrow> error + TableRow" where
  "tableRowOf row =
     iterate (content row) (\<lambda>cellNodes.
       case mapE walkCell cellNodes of
         Inl e \<Rightarrow> Inl e
       | Inr cs \<Rightarrow> Inr \<lparr>cells = cs, isHeader = hasHeaderCell cellNodes\<rparr>)"

definition referenceTableRows :: "node \<Rightarrow> error + TableRow list" where
  "referenceTableRows tableBlock =
     iterate (content tableBlock) (\<lambda>rowNodes.
       mapE tableRowOf (filter (\<lambda>row. nodeType row = ''table-row'') rowNodes))"

text \<open>The table of the scenario: a header row of two header cells, a data row of two
  cells.\<close>

definition tableScenario :: node where
  "tableScenario =
     blockNode ''table'' (JObj [])
       [blockNode ''table-row'' (JObj [])
          [blockNode ''table-header-cell'' (JObj []) [paragraphNode [textNode ''Name'' []]],
           blockNode ''table-header-cell'' (JObj []) [paragraphNode [textNode ''Age'' []]]],
        blockNode ''table-row'' (JObj [])
          [blockNode ''table-cell'' (JObj []) [paragraphNode [textNode ''Alice'' []]],
           blockNode ''table-cell'' (JObj []) [paragraphNode [textNode ''30'' []]]]]"

subsection \<open>Top-level scenarios\<close>

text \<open>The embedded asset of the scenario, and the document of one paragraph whose only Text
  leaf is empty.\<close>

definition assetScenario :: node where
  "assetScenario =
     blockNode ''embedded-asset-block''
       (JObj [(''target'', JObj [(''fields'',
          JObj [(''file'', JObj [(''url'', JStr ''//images.example.net/photo.jpg'')]),
                (''title'', JStr ''My Photo'')])])])
       []"

definition emptyTextDoc :: node where
  "emptyTextDoc = makeDoc [paragraphNode [textNode [] []]]"

section \<open>Properties of the segment merger\<close>

lemma sameFormatting_iff: "sameFormatting a b \<longleftrightarrow> formatting a = formatting b"
  by (simp add: sameFormatting_def formatting_def)

lemma formatting_text_update [simp]: "formatting (s\<lparr>seg_text := t\<rparr>) = formatting s"
  by (simp add: formatting_def)

lemma mergeLoop_referenceScan:
  "merged \<noteq> [] \<Longrightarrow> mergeLoop merged xs = butlast merged @ referenceScan (last merged) xs"
proof (induction xs arbitrary: merged)
  case Nil
  then show ?case by simp
next
  case (Cons x xs)
  show ?case
  proof (cases "sameFormatting (last merged) x")
    case True
    then show ?thesis
      using Cons.IH [of "butlast merged @ [(last merged)\<lparr>seg_text := seg_text (last merged) @ seg_text x\<rparr>]"]
      by (simp add: sameFormatting_iff Let_def)
  next
    case False
    then show ?thesis
      using Cons.IH [of "merged @ [x]"] Cons.prems
      by (simp add: sameFormatting_iff Let_def)
  qed
qed

lemma merge_is_reference: "mergeAdjacentSegments s = referenceMerge s"
  by (cases s) (simp_all add: mergeAdjacentSegments_def referenceMerge_def mergeLoop_referenceScan)

lemma referenceScan_formatting:
  "map formatting (referenceScan a xs) = remdups_adj (formatting a # map formatting xs)"
  by (induction xs arbitrary: a) simp_all

lemma referenceScan_length: "length (referenceScan a xs) \<le> Suc (length xs)"
  by (induction xs arbitrary: a) (simp_all add: le_SucI)

lemma referenceScan_text:
  "concat (map seg_text (referenceScan a xs)) = seg_text a @ concat (map seg_text xs)"
  by (induction xs arbitrary: a) simp_all

lemma referenceScan_fixed:
  "distinct_adj (map formatting (a # xs)) \<Longrightarrow> referenceScan a xs = a # xs"
  by (induction xs arbitrary: a) simp_all

lemma referenceMerge_formatting:
  "map formatting (referenceMerge s) = remdups_adj (map formatting s)"
  by (cases s) (simp_all add: referenceMerge_def referenceScan_formatting)

lemma referenceMerge_length: "length (referenceMerge s) \<le> length s"
  by (cases s) (simp_all add: referenceMerge_def referenceScan_length)

lemma referenceMerge_text:
  "concat (map seg_text (referenceMerge s)) = concat (map seg_text s)"
  by (cases s) (simp_all add: referenceMerge_def referenceScan_text)

lemma referenceMerge_fixed:
  "distinct_adj (map formatting s) \<Longrightarrow> referenceMerge s = s"
  by (cases s) (simp_all add: referenceMerge_def referenceScan_fixed)

lemma referenceMerge_distinct_adj: "distinct_adj (map formatting (referenceMerge s))"
  by (simp add: referenceMerge_formatting)

lemma distinct_adj_formatting:
  "distinct_adj (map formatting s) \<longleftrightarrow> successively (\<lambda>a b. \<not> sameFormatting a b) s"
  by (simp add: distinct_adj_def successively_map sameFormatting_iff)

text \<open>
  C4. The segment merger computes the reference linear scan. Two segments are compared on
  exactly the eight formatting fields. The formatting of the output is the formatting of
  the input with adjacent repetitions removed, in the same order; the output is no longer
  than the input; the texts of the output, concatenated in order, are those of the input;
  the empty sequence is merged to the empty sequence.
\<close>

theorem mergeAdjacentSegments_is_reference_scan:
  "mergeAdjacentSegments s = referenceMerge s \<and>
   (sameFormatting a b \<longleftrightarrow> formatting a = formatting b) \<and>
   map formatting (mergeAdjacentSegments s) = remdups_adj (map formatting s) \<and>
   length (mergeAdjacentSegments s) \<le> length s \<and>
   concat (map seg_text (mergeAdjacentSegments s)) = concat (map seg_text s) \<and>
   mergeAdjacentSegments [] = []"
proof -
  have "mergeAdjacentSegments [] = []"
    by (simp add: mergeAdjacentSegments_def)
  then show ?thesis
    using referenceMerge_formatting [of s] referenceMerge_length [of s] referenceMerge_text [of s]
    by (simp add: merge_is_reference sameFormatting_iff)
qed

text \<open>
  C5. Merging is idempotent: a second pass changes nothing. In the output of one pass no
  two consecutive segments agree on all eight formatting fields, and the sequences with
  that property are exactly the ones a pass leaves unchanged.
\<close>

theorem mergeAdjacentSegments_idempotent:
  "mergeAdjacentSegments (mergeAdjacentSegments s) = mergeAdjacentSegments s \<and>
   successively (\<lambda>a b. \<not> sameFormatting a b) (mergeAdjacentSegments s) \<and>
   (mergeAdjacentSegments t = t \<longleftrightarrow> successively (\<lambda>a b. \<not> sameFormatting a b) t)"
proof -
  have idem: "referenceMerge (referenceMerge s) = referenceMerge s"
    by (rule referenceMerge_fixed) (rule referenceMerge_distinct_adj)
  have out: "successively (\<lambda>a b. \<not> sameFormatting a b) (referenceMerge s)"
    using referenceMerge_distinct_adj [of s] by (simp only: distinct_adj_formatting)
  have fixpoint: "referenceMerge t = t \<longleftrightarrow> successively (\<lambda>a b. \<not> sameFormatting a b) t"
  proof
    assume "referenceMerge t = t"
    then show "successively (\<lambda>a b. \<not> sameFormatting a b) t"
      using referenceMerge_distinct_adj [of t] by (simp only: distinct_adj_formatting)
  next
    assume "successively (\<lambda>a b. \<not> sameFormatting a b) t"
    then have "distinct_adj (map formatting t)"
      by (simp only: distinct_adj_formatting)
    then show "referenceMerge t = t"
      by (rule referenceMerge_fixed)
  qed
  from idem out fixpoint show ?thesis
    by (simp only: merge_is_reference simp_thms)
qed

section \<open>Failure of the walkers\<close>

text \<open>
  C1. The walkers do fail. A blockquote hands each child to \<open>processBlock\<close> as a block;
  a Text leaf there has no \<open>content\<close>, no branch of \<open>processBlock\<close> takes the node type
  \<open>text\<close>, and the fallback iterates over the missing \<open>content\<close>: both entry points end
  in a \<open>TypeError\<close> on a document whose blockquote holds a Text leaf.
\<close>

theorem text_leaf_in_blockquote_fails:
  "documentToRenderPlan (makeDoc [blockNode ''blockquote'' (JObj []) [textNode ''x'' []]])
     = Inl TypeError \<and>
   richTextToPlainString (Some (makeDoc [blockNode ''blockquote'' (JObj []) [textNode ''x'' []]]))
     = Inl TypeError"
  by code_simp

section \<open>Embedded assets in plain-text mode\<close>

lemma plainLines_asset:
  "nodeType b = ''embedded-asset-block'' \<Longrightarrow>
   plainLines b =
     Inr [''['' @ js_toString (js_or (localizedTitle (js_get (data b) ''target'')) (JStr ''[image]''))
          @ '']'']"
  by (simp add: plainLines_def)

text \<open>
  C2. An embedded asset with no title: the fallback title is itself bracketed and is then
  put between brackets once more, so the line is \<open>[[image]]\<close>, not \<open>[image]\<close>.
\<close>

theorem plain_asset_without_title:
  "richTextToPlainString (Some (makeDoc [blockNode ''embedded-asset-block'' (JObj []) []]))
     = Inr ''[[image]]''"
  by code_simp

section \<open>Walker lemmas\<close>

lemma holds_Inr [simp]: "holds P (Inr xs) = list_all P xs"
  by (simp add: holds_def)

lemma holds_Inl [simp]: "holds P (Inl e)"
  by (simp add: holds_def)

lemma mapE_Inr_iff: "mapE f xs = Inr ys \<longleftrightarrow> list_all2 (\<lambda>x y. f x = Inr y) xs ys"
proof (induction xs arbitrary: ys)
  case Nil
  show ?case by auto
next
  case (Cons x xs)
  show ?case
    by (cases ys) (auto simp: Cons.IH [symmetric] split: sum.splits)
qed

lemma concatMapE_Inr_iff:
  "concatMapE f xs = Inr zs \<longleftrightarrow>
     (\<exists>yss. list_all2 (\<lambda>x ys. f x = Inr ys) xs yss \<and> zs = concat yss)"
  by (auto simp: concatMapE_def mapE_Inr_iff [symmetric] split: sum.splits)

lemma holds_concatMapE:
  assumes "\<And>x. x \<in> set xs \<Longrightarrow> holds P (f x)"
  shows "holds P (concatMapE f xs)"
proof (cases "concatMapE f xs")
  case (Inl e)
  then show ?thesis by simp
next
  case (Inr zs)
  then obtain yss where yss: "list_all2 (\<lambda>x ys. f x = Inr ys) xs yss" "zs = concat yss"
    by (auto simp: concatMapE_Inr_iff)
  have "list_all P ys" if "ys \<in> set yss" for ys
  proof -
    from that obtain i where i: "i < length yss" "yss ! i = ys"
      by (auto simp: in_set_conv_nth)
    with yss(1) have "f (xs ! i) = Inr ys" "xs ! i \<in> set xs"
      by (auto simp: list_all2_conv_all_nth)
    then obtain x where "x \<in> set xs" "f x = Inr ys"
      by blast
    with assms [of x] show ?thesis by simp
  qed
  with Inr yss(2) show ?thesis
    by (auto simp: list_all_iff)
qed

lemma holds_iterate:
  assumes "\<And>xs. v = Some xs \<Longrightarrow> holds P (body xs)"
  shows "holds P (iterate v body)"
  using assms by (cases v) (simp_all add: iterate_def)

lemma linkUnderlined_text: "linkUnderlined (textNodeToSegment n c)"
  by (simp add: linkUnderlined_def textNodeToSegment_def)

lemma linkUnderlined_inline: "holds linkUnderlined (collectSegmentsFromInline n c)"
  unfolding collectSegmentsFromInline_def
  by (rule holds_iterate)
     (auto simp: Let_def list_all_iff linkUnderlined_def linkSegment_def textNodeToSegment_def)

lemma processBlock_heading:
  "prefix ''heading-'' (nodeType b) \<Longrightarrow>
   processBlock b c =
     collectSegmentsFromBlock b (c\<lparr>ctx_headingLevel := headingLevelFromNodeType (nodeType b)\<rparr>)"
  by (subst processBlock.simps) simp

lemma processBlock_paragraph:
  "nodeType b = ''paragraph'' \<Longrightarrow> processBlock b c = collectSegmentsFromBlock b c"
  by (subst processBlock.simps) simp

lemma processBlock_blockquote:
  "nodeType b = ''blockquote'' \<Longrightarrow>
   processBlock b c =
     iterate (content b) (concatMapE (\<lambda>child. processBlock child (c\<lparr>isBlockquote := True\<rparr>)))"
  by (subst processBlock.simps) simp

lemma processBlock_list:
  "nodeType b = ''unordered-list'' \<or> nodeType b = ''ordered-list'' \<Longrightarrow>
   processBlock b c =
     iterate (content b)
       (concatMapE (\<lambda>child.
          if nodeType child = ''list-item'' then
            iterate (content child)
              (concatMapE (\<lambda>listChild.
                 processBlock listChild
                   (c\<lparr>ctx_listType := Some (listKindOf (nodeType b)),
                      ctx_listIndent := ctx_listIndent c + 1\<rparr>)))
          else Inr []))"
  by (subst processBlock.simps) (auto simp: listKindOf_def cong: if_cong)

lemma processBlock_table:
  "nodeType b = ''table'' \<Longrightarrow>
   processBlock b c =
     iterate (content b)
       (concatMapE (\<lambda>row.
          if nodeType row = ''table-row'' then
            (case rowText row c of
               Inl e \<Rightarrow> Inl e
             | Inr cellTexts \<Rightarrow> Inr [tableRowSegment (join [CHR 0x09] cellTexts)])
          else Inr []))"
  by (subst processBlock.simps) (simp add: rowText_def cong: if_cong)

lemma processBlock_cell:
  "nodeType b = ''table-cell'' \<or> nodeType b = ''table-header-cell'' \<Longrightarrow>
   processBlock b c = iterate (content b) (concatMapE (\<lambda>child. processBlock child c))"
  by (subst processBlock.simps) auto

lemma processBlock_fallback:
  "isFallback (nodeType b) \<Longrightarrow> processBlock b c = collectSegmentsFromBlock b c"
  by (subst processBlock.simps) (simp add: isFallback_def)

lemma nodeType_cases:
  obtains (heading) "prefix ''heading-'' ty"
  | (para) "ty = ''paragraph''"
  | (blockquote) "ty = ''blockquote''"
  | (list) "ty = ''unordered-list'' \<or> ty = ''ordered-list''"
  | (table) "ty = ''table''"
  | (cell) "ty = ''table-cell'' \<or> ty = ''table-header-cell''"
  | (fallback) "isFallback ty"
  unfolding isFallback_def by blast

lemma linkUnderlined_row: "linkUnderlined (tableRowSegment t)"
  by (simp add: linkUnderlined_def tableRowSegment_def)

lemma linkUnderlined_walk:
  "holds linkUnderlined (processBlock b c)"
  "holds linkUnderlined (collectSegmentsFromBlock b c)"
proof (induction b c and b c rule: processBlock_collectSegmentsFromBlock.induct)
  case (1 block parentCtx)
  show ?case
  proof (cases "nodeType block" rule: nodeType_cases)
    case heading
    with 1(1) show ?thesis by (simp add: processBlock_heading)
  next
    case para
    with 1(2) show ?thesis by (simp add: processBlock_paragraph)
  next
    case blockquote
    then show ?thesis
      by (simp add: processBlock_blockquote) (intro holds_iterate holds_concatMapE, rule 1(3), simp_all)
  next
    case list
    have "holds linkUnderlined
            (processBlock lc (parentCtx\<lparr>ctx_listType := Some (listKindOf (nodeType block)),
                                 ctx_listIndent := ctx_listIndent parentCtx + 1\<rparr>))"
      if "content block = Some xs" "x \<in> set xs" "nodeType x = ''list-item''"
         "content x = Some ys" "lc \<in> set ys" for xs x ys lc
      using 1(4) [OF _ _ _ list that] list by (auto simp: listKindOf_def)
    then show ?thesis
      using list by (simp add: processBlock_list) (intro holds_iterate holds_concatMapE, auto intro!: holds_iterate holds_concatMapE)
  next
    case table
    then show ?thesis
      by (simp add: processBlock_table)
         (intro holds_iterate holds_concatMapE, auto simp: linkUnderlined_row split: sum.splits)
  next
    case cell
    then show ?thesis
      by (simp add: processBlock_cell) (intro holds_iterate holds_concatMapE, rule 1(6), auto)
  next
    case fallback
    then show ?thesis
      using 1(7) by (simp add: processBlock_fallback isFallback_def)
  qed
next
  case (2 block ctx)
  show ?case
    by (subst collectSegmentsFromBlock.simps, intro holds_iterate holds_concatMapE)
       (auto simp: linkUnderlined_text linkUnderlined_inline intro: 2)
qed


lemma mapE_append:
  "mapE f (xs @ ys) =
     (case mapE f xs of
        Inl e \<Rightarrow> Inl e
      | Inr as \<Rightarrow> (case mapE f ys of Inl e \<Rightarrow> Inl e | Inr bs \<Rightarrow> Inr (as @ bs)))"
  by (induction xs) (auto split: sum.splits)

lemma cellLoop_mapE:
  "cellLoop cellNodes cs hdr =
     (case mapE walkCell cellNodes of
        Inl e \<Rightarrow> Inl e
      | Inr new \<Rightarrow> Inr (cs @ new, hdr \<or> hasHeaderCell cellNodes))"
proof (induction cellNodes arbitrary: cs hdr)
  case Nil
  show ?case by (simp add: hasHeaderCell_def)
next
  case (Cons cell rest)
  show ?case
    by (auto simp: Cons.IH walkCell_def hasHeaderCell_def Let_def split: sum.splits)
qed

lemma rowLoop_mapE:
  "rowLoop rowNodes rows =
     (case mapE tableRowOf (filter (\<lambda>row. nodeType row = ''table-row'') rowNodes) of
        Inl e \<Rightarrow> Inl e
      | Inr new \<Rightarrow> Inr (rows @ new))"
proof (induction rowNodes arbitrary: rows)
  case Nil
  show ?case by simp
next
  case (Cons row rest)
  show ?case
    by (cases "content row")
       (auto simp: Cons.IH tableRowOf_def iterate_def cellLoop_mapE split: sum.splits)
qed

lemma processTableToRows_reference: "processTableToRows t = referenceTableRows t"
  by (cases "content t")
     (auto simp: processTableToRows_def referenceTableRows_def iterate_def rowLoop_mapE
        split: sum.splits)

section \<open>Plans and tables\<close>

lemma merge_formatting_set:
  "formatting ` set (mergeAdjacentSegments xs) = formatting ` set xs"
proof -
  have "set (map formatting (mergeAdjacentSegments xs)) = set (map formatting xs)"
    by (simp only: merge_is_reference referenceMerge_formatting remdups_adj_set)
  then show ?thesis by simp
qed

lemma merge_list_all:
  assumes fmt: "\<And>a b. formatting a = formatting b \<Longrightarrow> P a \<Longrightarrow> P b"
    and xs: "list_all P xs"
  shows "list_all P (mergeAdjacentSegments xs)"
proof -
  have "P s" if "s \<in> set (mergeAdjacentSegments xs)" for s
  proof -
    from that have "formatting s \<in> formatting ` set xs"
      using merge_formatting_set [of xs] by blast
    then obtain s' where "s' \<in> set xs" "formatting s' = formatting s"
      by auto
    with xs fmt [of s' s] show ?thesis
      by (auto simp: list_all_iff)
  qed
  then show ?thesis by (simp add: list_all_iff)
qed

lemma iterate_Inr_iff:
  "iterate v body = Inr r \<longleftrightarrow> (\<exists>xs. v = Some xs \<and> body xs = Inr r)"
  by (cases v) (simp_all add: iterate_def)

lemma walkCell_Inr_iff:
  "walkCell cell = Inr segs \<longleftrightarrow>
     (\<exists>children walked. content cell = Some children \<and>
        concatMapE (\<lambda>child. processBlock child DEFAULT_CONTEXT) children = Inr walked \<and>
        segs = mergeAdjacentSegments walked)"
  by (cases "content cell") (auto simp: walkCell_def iterate_def split: sum.splits)

lemma tableRowOf_Inr_iff:
  "tableRowOf row = Inr r \<longleftrightarrow>
     (\<exists>cellNodes. content row = Some cellNodes \<and>
        isHeader r = hasHeaderCell cellNodes \<and>
        list_all2 (\<lambda>cell segs. walkCell cell = Inr segs) cellNodes (cells r))"
  by (cases "content row"; cases r)
     (auto simp: tableRowOf_def iterate_def mapE_Inr_iff [symmetric] split: sum.splits)

lemma processTableToRows_Inr_iff:
  "processTableToRows t = Inr rows \<longleftrightarrow>
     (\<exists>rowNodes. content t = Some rowNodes \<and>
        list_all2 (\<lambda>row r. tableRowOf row = Inr r)
          (filter (\<lambda>row. nodeType row = ''table-row'') rowNodes) rows)"
  by (simp add: processTableToRows_reference referenceTableRows_def iterate_Inr_iff mapE_Inr_iff)

lemma walkCell_list_all:
  assumes fmt: "\<And>a b. formatting a = formatting b \<Longrightarrow> P a \<Longrightarrow> P b"
    and walk: "\<And>children child. content cell = Some children \<Longrightarrow> child \<in> set children \<Longrightarrow>
                 holds P (processBlock child DEFAULT_CONTEXT)"
    and res: "walkCell cell = Inr segs"
  shows "list_all P segs"
proof -
  from res obtain children walked where c: "content cell = Some children"
    and w: "concatMapE (\<lambda>child. processBlock child DEFAULT_CONTEXT) children = Inr walked"
    and s: "segs = mergeAdjacentSegments walked"
    by (auto simp: walkCell_Inr_iff)
  have "holds P (concatMapE (\<lambda>child. processBlock child DEFAULT_CONTEXT) children)"
    by (rule holds_concatMapE) (rule walk [OF c])
  with w have "list_all P walked" by simp
  with s fmt show ?thesis by (simp add: merge_list_all)
qed

lemma list_all2_rightD:
  "list_all2 R xs ys \<Longrightarrow> y \<in> set ys \<Longrightarrow> \<exists>x \<in> set xs. R x y"
proof -
  assume R: "list_all2 R xs ys" and "y \<in> set ys"
  then obtain i where i: "i < length ys" "ys ! i = y"
    by (auto simp: in_set_conv_nth)
  with R have "R (xs ! i) y" "xs ! i \<in> set xs"
    by (auto simp: list_all2_conv_all_nth)
  then show ?thesis by blast
qed

lemma table_list_all:
  assumes fmt: "\<And>a b. formatting a = formatting b \<Longrightarrow> P a \<Longrightarrow> P b"
    and child: "\<And>b cs c. Q b \<Longrightarrow> content b = Some cs \<Longrightarrow> c \<in> set cs \<Longrightarrow> Q c"
    and walk: "\<And>b. Q b \<Longrightarrow> holds P (processBlock b DEFAULT_CONTEXT)"
    and t: "Q t"
    and res: "processTableToRows t = Inr rows"
  shows "list_all P (concat (concat (map cells rows)))"
proof -
  have "list_all P segs" if "r \<in> set rows" "segs \<in> set (cells r)" for r segs
  proof -
    from res obtain rowNodes where rn: "content t = Some rowNodes"
      "list_all2 (\<lambda>row r. tableRowOf row = Inr r)
         (filter (\<lambda>row. nodeType row = ''table-row'') rowNodes) rows"
      by (auto simp: processTableToRows_Inr_iff)
    from list_all2_rightD [OF rn(2) that(1)]
    obtain row where row: "row \<in> set rowNodes" "tableRowOf row = Inr r"
      by auto
    then obtain cellNodes where cn: "content row = Some cellNodes"
      "list_all2 (\<lambda>cell segs. walkCell cell = Inr segs) cellNodes (cells r)"
      by (auto simp: tableRowOf_Inr_iff)
    with that(2) obtain cell where cell: "cell \<in> set cellNodes" "walkCell cell = Inr segs"
      by (auto dest: list_all2_rightD)
    from t rn(1) row(1) have "Q row" by (rule child)
    from this cn(1) cell(1) have "Q cell" by (rule child)
    then have "holds P (processBlock c DEFAULT_CONTEXT)"
      if "content cell = Some children" "c \<in> set children" for children c
      using that child walk by blast
    with fmt show ?thesis
      using cell(2) by (rule walkCell_list_all)
  qed
  then show ?thesis by (auto simp: list_all_iff)
qed

lemma renderTopBlock_list_all:
  assumes fmt: "\<And>a b. formatting a = formatting b \<Longrightarrow> P a \<Longrightarrow> P b"
    and child: "\<And>b cs c. Q b \<Longrightarrow> content b = Some cs \<Longrightarrow> c \<in> set cs \<Longrightarrow> Q c"
    and walk: "\<And>b. Q b \<Longrightarrow> holds P (processBlock b DEFAULT_CONTEXT)"
    and placeholder: "\<And>t. P (entryPlaceholder t)"
    and b: "Q b"
    and res: "renderTopBlock b = Inr out"
    and rb: "rb \<in> set out"
  shows "list_all P (blockSegments rb)"
proof -
  consider (table) "nodeType b = ''table''"
    | (asset) "nodeType b \<noteq> ''table''" "nodeType b = ''embedded-asset-block''"
    | (entry) "nodeType b \<noteq> ''table''" "nodeType b \<noteq> ''embedded-asset-block''"
        "nodeType b = ''embedded-entry-block''"
    | (hr) "nodeType b \<noteq> ''table''" "nodeType b \<noteq> ''embedded-asset-block''"
        "nodeType b \<noteq> ''embedded-entry-block''" "nodeType b = ''hr''"
    | (other) "nodeType b \<noteq> ''table''" "nodeType b \<noteq> ''embedded-asset-block''"
        "nodeType b \<noteq> ''embedded-entry-block''" "nodeType b \<noteq> ''hr''"
    by blast
  then show ?thesis
  proof cases
    case table
    with res rb obtain rows where "processTableToRows b = Inr rows" "rb = TableBlock rows"
      by (auto simp: renderTopBlock_def split: sum.splits if_splits)
    moreover from fmt child walk b this(1) have "list_all P (concat (concat (map cells rows)))"
      by (rule table_list_all)
    ultimately show ?thesis by simp
  next
    case asset
    with res rb show ?thesis
      by (auto simp: renderTopBlock_def Let_def split: option.splits)
  next
    case entry
    with res rb have "rb = TextBlock [entryPlaceholder
        (''[Embedded: '' @ js_toString (entryTitle (js_get (data b) ''target'')) @ '']'')]"
      by (auto simp: renderTopBlock_def Let_def entryPlaceholder_def)
    then show ?thesis by (simp add: placeholder)
  next
    case hr
    with res rb show ?thesis
      by (auto simp: renderTopBlock_def)
  next
    case other
    with res rb obtain segs where "processBlock b DEFAULT_CONTEXT = Inr segs"
      "rb = TextBlock (mergeAdjacentSegments segs)"
      by (auto simp: renderTopBlock_def split: sum.splits if_splits)
    with walk [OF b] fmt show ?thesis
      by (simp add: merge_list_all)
  qed
qed

lemma documentToRenderPlan_Inr_iff:
  "documentToRenderPlan doc = Inr plan \<longleftrightarrow>
     (\<exists>topBlocks outs. content doc = Some topBlocks \<and>
        list_all2 (\<lambda>b out. renderTopBlock b = Inr out) topBlocks outs \<and>
        blocks plan = concat outs)"
proof -
  have "documentToRenderPlan doc = Inr plan \<longleftrightarrow>
          iterate (content doc) (concatMapE renderTopBlock) = Inr (blocks plan)"
    by (cases plan) (auto simp: documentToRenderPlan_def split: sum.splits)
  then show ?thesis
    by (simp add: iterate_Inr_iff concatMapE_Inr_iff)
qed

lemma plan_list_all:
  assumes fmt: "\<And>a b. formatting a = formatting b \<Longrightarrow> P a \<Longrightarrow> P b"
    and walk: "\<And>b. holds P (processBlock b DEFAULT_CONTEXT)"
    and entry: "\<And>t. P (entryPlaceholder t)"
    and res: "documentToRenderPlan doc = Inr plan"
  shows "list_all P (planSegments plan)"
proof -
  from res obtain topBlocks outs where outs:
    "list_all2 (\<lambda>b out. renderTopBlock b = Inr out) topBlocks outs" "blocks plan = concat outs"
    by (auto simp: documentToRenderPlan_Inr_iff)
  have "list_all P (blockSegments rb)" if "out \<in> set outs" "rb \<in> set out" for out rb
  proof -
    from outs(1) that(1) obtain b where "renderTopBlock b = Inr out"
      by (auto dest: list_all2_rightD)
    from fmt _ walk entry _ this that(2) show ?thesis
      by (rule renderTopBlock_list_all [where Q = "\<lambda>b. True"]) simp_all
  qed
  with outs(2) show ?thesis
    by (auto simp: planSegments_def list_all_iff)
qed

lemma linkUnderlined_formatting:
  "formatting a = formatting b \<Longrightarrow> linkUnderlined a \<Longrightarrow> linkUnderlined b"
  by (simp add: formatting_def linkUnderlined_def)

lemma hyperlink_inline:
  assumes "js_truthy (resolveHref inline)" "content inline = Some children"
  shows "collectSegmentsFromInline inline ctx =
     Inr (map (\<lambda>child. (textNodeToSegment child ctx)
                 \<lparr>hyperlink := Some (js_toString (resolveHref inline)), underline := True\<rparr>)
            (filter (\<lambda>child. nodeType child = ''text'') children))"
proof -
  from assms(1) have "isHyperlink (nodeType inline)"
    by (auto simp: resolveHref_def split: if_splits)
  then have "nodeType inline \<noteq> ''embedded-entry-inline''"
    by (auto simp: isHyperlink_def)
  with assms show ?thesis
    by (simp add: collectSegmentsFromInline_def iterate_def linkSegment_def)
qed

text \<open>
  In every plan the renderer returns, each segment of a text block or of a table cell
  that has a hyperlink is underlined. An inline node whose hyperlink target resolves is a
  hyperlink node, and \<open>collectSegmentsFromInline\<close>, called on it, yields for each of its
  Text children a segment that carries the resolved URL and is underlined, whatever the
  marks of the leaf.
\<close>

lemma hyperlink_forces_underline:
  "(documentToRenderPlan doc = Inr plan \<longrightarrow>
      (\<forall>s \<in> set (planSegments plan). hyperlink s \<noteq> None \<longrightarrow> underline s)) \<and>
   (js_truthy (resolveHref inline) \<and> content inline = Some children \<longrightarrow>
      isHyperlink (nodeType inline) \<and>
      collectSegmentsFromInline inline ctx =
        Inr (map (\<lambda>child. (textNodeToSegment child ctx)
                    \<lparr>hyperlink := Some (js_toString (resolveHref inline)), underline := True\<rparr>)
               (filter (\<lambda>child. nodeType child = ''text'') children)))"
proof (intro conjI impI)
  assume res: "documentToRenderPlan doc = Inr plan"
  have w: "holds linkUnderlined (processBlock b DEFAULT_CONTEXT)" for b
    by (rule linkUnderlined_walk)
  have e: "linkUnderlined (entryPlaceholder t)" for t
    by (simp add: linkUnderlined_def entryPlaceholder_def)
  from linkUnderlined_formatting w e res have "list_all linkUnderlined (planSegments plan)"
    by (rule plan_list_all)
  then show "\<forall>s \<in> set (planSegments plan). hyperlink s \<noteq> None \<longrightarrow> underline s"
    by (simp add: list_all_iff linkUnderlined_def)
next
  assume a: "js_truthy (resolveHref inline) \<and> content inline = Some children"
  then show "isHyperlink (nodeType inline)"
    by (auto simp: resolveHref_def split: if_splits)
  from a show "collectSegmentsFromInline inline ctx =
        Inr (map (\<lambda>child. (textNodeToSegment child ctx)
                    \<lparr>hyperlink := Some (js_toString (resolveHref inline)), underline := True\<rparr>)
               (filter (\<lambda>child. nodeType child = ''text'') children))"
    by (simp add: hyperlink_inline)
qed


lemma hyperlink_in_paragraph_example:
  "documentToRenderPlan
     (makeDoc [paragraphNode [textNode ''Visit '' [],
        blockNode ''hyperlink'' (JObj [(''uri'', JStr ''https://example.com'')])
          [textNode ''this link'' []]]])
     = Inr \<lparr>blocks = [TextBlock
         [\<lparr>seg_text = ''Visit '', bold = False, italic = False, underline = False, code = False,
            headingLevel = 0, listType = None, listIndent = 0, hyperlink = None\<rparr>,
          \<lparr>seg_text = ''this link'', bold = False, italic = False, underline = True, code = False,
            headingLevel = 0, listType = None, listIndent = 0,
            hyperlink = Some ''https://example.com''\<rparr>]]\<rparr> \<and>
   list_all (\<lambda>s. hyperlink s = None \<or> underline s)
     (planSegments \<lparr>blocks = [TextBlock
         [\<lparr>seg_text = ''Visit '', bold = False, italic = False, underline = False, code = False,
            headingLevel = 0, listType = None, listIndent = 0, hyperlink = None\<rparr>,
          \<lparr>seg_text = ''this link'', bold = False, italic = False, underline = True, code = False,
            headingLevel = 0, listType = None, listIndent = 0,
            hyperlink = Some ''https://example.com''\<rparr>]]\<rparr>) \<and>
   js_truthy (resolveHref (blockNode ''hyperlink'' (JObj [(''uri'', JStr ''https://example.com'')])
          [textNode ''this link'' []])) \<and>
   collectSegmentsFromInline
     (blockNode ''hyperlink'' (JObj [(''uri'', JStr ''https://example.com'')])
        [textNode ''this link'' []]) DEFAULT_CONTEXT
     = Inr [(textNodeToSegment (textNode ''this link'' []) DEFAULT_CONTEXT)
              \<lparr>hyperlink := Some ''https://example.com'', underline := True\<rparr>]"
  (is "?run \<and> ?inv \<and> ?href \<and> ?inline")
proof -
  have run: ?run by code_simp
  have href: ?href by code_simp
  have c: "content (blockNode ''hyperlink'' (JObj [(''uri'', JStr ''https://example.com'')])
             [textNode ''this link'' []]) = Some [textNode ''this link'' []]"
    by (simp add: blockNode_def)
  from hyperlink_forces_underline [THEN conjunct1] run
  have inv: ?inv unfolding list_all_iff by blast
  from hyperlink_forces_underline [where ctx = DEFAULT_CONTEXT, THEN conjunct2] href c
  have inl: ?inline
    by (simp add: resolveHref_def blockNode_def isHyperlink_def js_or_def textNode_def)
  from run inv href inl show ?thesis by blast
qed


lemma tableScenario_rows:
  "processTableToRows tableScenario =
     Inr [\<lparr>cells = [[textNodeToSegment (textNode ''Name'' []) DEFAULT_CONTEXT],
                    [textNodeToSegment (textNode ''Age'' []) DEFAULT_CONTEXT]],
            isHeader = True\<rparr>,
          \<lparr>cells = [[textNodeToSegment (textNode ''Alice'' []) DEFAULT_CONTEXT],
                    [textNodeToSegment (textNode ''30'' []) DEFAULT_CONTEXT]],
            isHeader = False\<rparr>]"
  by code_simp

text \<open>
  C8. The table extractor returns a result exactly when the table, its rows and their cells
  have content and every walk of a cell child succeeds. The result then has one row per
  \<open>table-row\<close> child, in source order; a row is a header row iff one of its direct cell
  children is a \<open>table-header-cell\<close>; its cells are in source order, and each cell is the
  merge of the segments its children yield under the root context, cell by cell. The two
  loops compute the map-and-filter reading of the specification, and the scenario table
  yields a header row and a data row whose first segment is the first data cell's text.
\<close>

theorem processTableToRows_rows:
  "(processTableToRows t = Inr rows \<longleftrightarrow>
     (\<exists>rowNodes. content t = Some rowNodes \<and>
        list_all2
          (\<lambda>row r. \<exists>cellNodes. content row = Some cellNodes \<and>
             isHeader r = (\<exists>cell \<in> set cellNodes. nodeType cell = ''table-header-cell'') \<and>
             list_all2
               (\<lambda>cell segs. \<exists>children walked. content cell = Some children \<and>
                  concatMapE (\<lambda>child. processBlock child DEFAULT_CONTEXT) children = Inr walked \<and>
                  segs = mergeAdjacentSegments walked)
               cellNodes (cells r))
          (filter (\<lambda>row. nodeType row = ''table-row'') rowNodes) rows)) \<and>
   processTableToRows t = referenceTableRows t \<and>
   (\<exists>row0 row1. processTableToRows tableScenario = Inr [row0, row1] \<and>
      isHeader row0 \<and> \<not> isHeader row1 \<and> seg_text (cells row1 ! 0 ! 0) = ''Alice'')"
proof -
  have scenario: "\<exists>row0 row1. processTableToRows tableScenario = Inr [row0, row1] \<and>
      isHeader row0 \<and> \<not> isHeader row1 \<and> seg_text (cells row1 ! 0 ! 0) = ''Alice''"
    by (simp add: tableScenario_rows textNodeToSegment_def textNode_def)
  have rows: "processTableToRows t = Inr rows \<longleftrightarrow>
     (\<exists>rowNodes. content t = Some rowNodes \<and>
        list_all2
          (\<lambda>row r. \<exists>cellNodes. content row = Some cellNodes \<and>
             isHeader r = (\<exists>cell \<in> set cellNodes. nodeType cell = ''table-header-cell'') \<and>
             list_all2
               (\<lambda>cell segs. \<exists>children walked. content cell = Some children \<and>
                  concatMapE (\<lambda>child. processBlock child DEFAULT_CONTEXT) children = Inr walked \<and>
                  segs = mergeAdjacentSegments walked)
               cellNodes (cells r))
          (filter (\<lambda>row. nodeType row = ''table-row'') rowNodes) rows)"
    unfolding processTableToRows_Inr_iff tableRowOf_Inr_iff walkCell_Inr_iff hasHeaderCell_def
    by (rule refl)
  from rows processTableToRows_reference scenario show ?thesis
    by (intro conjI)
qed

section \<open>Top-level blocks\<close>

lemma concatMapE_append:
  "concatMapE f (xs @ ys) =
     (case concatMapE f xs of
        Inl e \<Rightarrow> Inl e
      | Inr as \<Rightarrow> (case concatMapE f ys of Inl e \<Rightarrow> Inl e | Inr bs \<Rightarrow> Inr (as @ bs)))"
  by (simp add: concatMapE_def mapE_append split: sum.splits)

lemma concatMapE_Cons:
  "concatMapE f (x # xs) =
     (case f x of
        Inl e \<Rightarrow> Inl e
      | Inr as \<Rightarrow> (case concatMapE f xs of Inl e \<Rightarrow> Inl e | Inr bs \<Rightarrow> Inr (as @ bs)))"
  by (simp add: concatMapE_def split: sum.splits)

lemma concatMapE_Nil [simp]: "concatMapE f [] = Inr []"
  by (simp add: concatMapE_def)

lemma concatMapE_split:
  assumes "concatMapE f (pre @ x # post) = Inr zs"
  shows "\<exists>p r q. concatMapE f pre = Inr p \<and> f x = Inr r \<and> concatMapE f post = Inr q \<and>
           zs = p @ r @ q"
  using assms by (auto simp: concatMapE_append concatMapE_Cons split: sum.splits)

lemma concatMapE_member:
  assumes "concatMapE f xs = Inr zs" "x \<in> set xs"
  shows "\<exists>p r q. f x = Inr r \<and> zs = p @ r @ q"
proof -
  from assms(2) obtain pre post where "xs = pre @ x # post"
    by (auto simp: in_set_conv_decomp)
  with assms(1) show ?thesis
    by (blast dest: concatMapE_split)
qed

lemma plan_at_position:
  assumes "content doc = Some (pre @ b # post)" "documentToRenderPlan doc = Inr plan"
  shows "\<exists>p out q. concatMapE renderTopBlock pre = Inr p \<and> renderTopBlock b = Inr out \<and>
           concatMapE renderTopBlock post = Inr q \<and> blocks plan = p @ out @ q"
proof -
  from assms have "concatMapE renderTopBlock (pre @ b # post) = Inr (blocks plan)"
    by (cases plan) (auto simp: documentToRenderPlan_def iterate_def split: sum.splits)
  then show ?thesis
    by (rule concatMapE_split)
qed

lemma renderTopBlock_asset:
  assumes "nodeType b = ''embedded-asset-block''"
  shows "renderTopBlock b =
     Inr (if js_truthy (js_get (assetFile (js_get (data b) ''target'')) ''url'')
          then [ImageBlock
                  (''https:'' @ js_toString (js_get (assetFile (js_get (data b) ''target'')) ''url''))
                  (if js_truthy (localizedTitle (js_get (data b) ''target''))
                   then js_toString (localizedTitle (js_get (data b) ''target''))
                   else ''image'')]
          else [])"
  using assms by (simp add: renderTopBlock_def assetUrl_def Let_def js_or_def)

lemma assetScenario_plan:
  "documentToRenderPlan (makeDoc [assetScenario]) =
     Inr \<lparr>blocks = [ImageBlock ''https://images.example.net/photo.jpg'' ''My Photo'']\<rparr>"
  by code_simp

text \<open>
  C9. A top-level embedded asset pushes an image block iff the \<open>url\<close> of its file (the
  localized file, else the file itself) is truthy, and nothing otherwise; the URL is
  prefixed with \<open>https:\<close>, the title is the localized or plain title, else \<open>image\<close>.
  Wherever the asset stands in the document, the plan is the blocks of what precedes it,
  then its own, then those of what follows. The scenario asset yields the image block of
  the specification.
\<close>

theorem embedded_asset_image:
  "(nodeType b = ''embedded-asset-block'' \<longrightarrow>
      renderTopBlock b =
        Inr (if js_truthy (js_get (assetFile (js_get (data b) ''target'')) ''url'')
             then [ImageBlock
                     (''https:'' @ js_toString (js_get (assetFile (js_get (data b) ''target'')) ''url''))
                     (if js_truthy (localizedTitle (js_get (data b) ''target''))
                      then js_toString (localizedTitle (js_get (data b) ''target''))
                      else ''image'')]
             else [])) \<and>
   (nodeType b = ''embedded-asset-block'' \<and> content doc = Some (pre @ b # post) \<and>
    documentToRenderPlan doc = Inr plan \<longrightarrow>
      (\<exists>p out q. concatMapE renderTopBlock pre = Inr p \<and> renderTopBlock b = Inr out \<and>
         concatMapE renderTopBlock post = Inr q \<and> blocks plan = p @ out @ q)) \<and>
   documentToRenderPlan (makeDoc [assetScenario]) =
     Inr \<lparr>blocks = [ImageBlock ''https://images.example.net/photo.jpg'' ''My Photo'']\<rparr>"
  using renderTopBlock_asset [of b] plan_at_position [of doc pre b post plan] assetScenario_plan
  by blast

theorem embedded_asset_image_witness:
  "nodeType assetScenario = ''embedded-asset-block'' \<and>
   js_truthy (js_get (assetFile (js_get (data assetScenario) ''target'')) ''url'') \<and>
   renderTopBlock assetScenario =
     Inr [ImageBlock ''https://images.example.net/photo.jpg'' ''My Photo''] \<and>
   renderTopBlock (blockNode ''embedded-asset-block'' (JObj []) []) = Inr [] \<and>
   documentToRenderPlan (makeDoc [blockNode ''hr'' (JObj []) [], assetScenario]) =
     Inr \<lparr>blocks = [HrBlock, ImageBlock ''https://images.example.net/photo.jpg'' ''My Photo'']\<rparr> \<and>
   (\<exists>p out q. concatMapE renderTopBlock [blockNode ''hr'' (JObj []) []] = Inr p \<and>
      renderTopBlock assetScenario = Inr out \<and>
      concatMapE renderTopBlock [] = Inr q \<and>
      blocks \<lparr>blocks = [HrBlock, ImageBlock ''https://images.example.net/photo.jpg'' ''My Photo'']\<rparr>
        = p @ out @ q)"
  (is "?ty \<and> ?url \<and> ?img \<and> ?none \<and> ?run \<and> ?place")
proof -
  have ty: ?ty by (simp add: assetScenario_def blockNode_def)
  have url: ?url by code_simp
  from embedded_asset_image [of assetScenario, THEN conjunct1] ty
  have "renderTopBlock assetScenario =
        Inr (if js_truthy (js_get (assetFile (js_get (data assetScenario) ''target'')) ''url'')
             then [ImageBlock
                     (''https:'' @ js_toString (js_get (assetFile (js_get (data assetScenario) ''target'')) ''url''))
                     (if js_truthy (localizedTitle (js_get (data assetScenario) ''target''))
                      then js_toString (localizedTitle (js_get (data assetScenario) ''target''))
                      else ''image'')]
             else [])"
    by (rule mp)
  also have "\<dots> = Inr [ImageBlock ''https://images.example.net/photo.jpg'' ''My Photo'']"
    by code_simp
  finally have img: ?img .
  have none: ?none by code_simp
  have run: ?run by code_simp
  have "content (makeDoc [blockNode ''hr'' (JObj []) [], assetScenario]) =
      Some ([blockNode ''hr'' (JObj []) []] @ assetScenario # [])"
    by (simp add: makeDoc_def)
  with ty run have prem:
    "nodeType assetScenario = ''embedded-asset-block'' \<and>
     content (makeDoc [blockNode ''hr'' (JObj []) [], assetScenario]) =
       Some ([blockNode ''hr'' (JObj []) []] @ assetScenario # []) \<and>
     documentToRenderPlan (makeDoc [blockNode ''hr'' (JObj []) [], assetScenario]) =
       Inr \<lparr>blocks = [HrBlock, ImageBlock ''https://images.example.net/photo.jpg'' ''My Photo'']\<rparr>"
    by (intro conjI)
  have place: ?place
    by (rule embedded_asset_image [THEN conjunct2, THEN conjunct1, THEN mp, OF prem])
  from ty url img none run place show ?thesis by (intro conjI)
qed

lemma renderTopBlock_text:
  assumes "\<not> isSpecialTopBlock (nodeType b)" "processBlock b DEFAULT_CONTEXT = Inr segs"
  shows "renderTopBlock b = Inr (if segs \<noteq> [] then [TextBlock (mergeAdjacentSegments segs)] else [])"
  using assms by (simp add: renderTopBlock_def isSpecialTopBlock_def)

lemma plainLines_text:
  assumes "\<not> isSpecialTopBlock (nodeType b)" "processBlock b DEFAULT_CONTEXT = Inr segs"
  shows "plainLines b =
     Inr (if concat (map seg_text segs) \<noteq> [] then [concat (map seg_text segs)] else [])"
  using assms by (simp add: plainLines_def isSpecialTopBlock_def Let_def)

lemma emptyTextDoc_plan:
  "documentToRenderPlan emptyTextDoc =
     Inr \<lparr>blocks = [TextBlock [textNodeToSegment (textNode [] []) DEFAULT_CONTEXT]]\<rparr>"
  by code_simp

lemma emptyTextDoc_plain: "richTextToPlainString (Some emptyTextDoc) = Inr []"
  by code_simp

text \<open>
  C10. For a top-level block that is not a table, an embedded asset, an embedded entry or
  a horizontal rule, the plan gets a text block exactly when the walker returns at least
  one segment, and the plain text gets a line exactly when the concatenated text is not
  empty. A paragraph with the one Text leaf \<open>""\<close> gives a plan of one text block with one
  segment of empty text, and the plain string \<open>""\<close>.
\<close>

theorem text_block_iff_segment:
  "(\<not> isSpecialTopBlock (nodeType b) \<and> processBlock b DEFAULT_CONTEXT = Inr segs \<longrightarrow>
      renderTopBlock b =
        Inr (if segs \<noteq> [] then [TextBlock (mergeAdjacentSegments segs)] else []) \<and>
      plainLines b =
        Inr (if concat (map seg_text segs) \<noteq> [] then [concat (map seg_text segs)] else [])) \<and>
   documentToRenderPlan emptyTextDoc =
     Inr \<lparr>blocks = [TextBlock [textNodeToSegment (textNode [] []) DEFAULT_CONTEXT]]\<rparr> \<and>
   seg_text (textNodeToSegment (textNode [] []) DEFAULT_CONTEXT) = [] \<and>
   richTextToPlainString (Some emptyTextDoc) = Inr []"
  using renderTopBlock_text [of b segs] plainLines_text [of b segs] emptyTextDoc_plan emptyTextDoc_plain
  by (auto simp: isSpecialTopBlock_def textNodeToSegment_def textNode_def)

theorem text_block_iff_segment_witness:
  "\<not> isSpecialTopBlock (nodeType (paragraphNode [textNode [] []])) \<and>
   processBlock (paragraphNode [textNode [] []]) DEFAULT_CONTEXT
     = Inr [textNodeToSegment (textNode [] []) DEFAULT_CONTEXT] \<and>
   renderTopBlock (paragraphNode [textNode [] []])
     = Inr [TextBlock [textNodeToSegment (textNode [] []) DEFAULT_CONTEXT]] \<and>
   plainLines (paragraphNode [textNode [] []]) = Inr []"
  (is "?ty \<and> ?walk \<and> ?plan \<and> ?plain")
proof -
  have ty: ?ty by code_simp
  have walk: ?walk by code_simp
  from text_block_iff_segment [THEN conjunct1] ty walk
  have "renderTopBlock (paragraphNode [textNode [] []]) =
        Inr (if [textNodeToSegment (textNode [] []) DEFAULT_CONTEXT] \<noteq> []
             then [TextBlock (mergeAdjacentSegments [textNodeToSegment (textNode [] []) DEFAULT_CONTEXT])]
             else []) \<and>
      plainLines (paragraphNode [textNode [] []]) =
        Inr (if concat (map seg_text [textNodeToSegment (textNode [] []) DEFAULT_CONTEXT]) \<noteq> []
             then [concat (map seg_text [textNodeToSegment (textNode [] []) DEFAULT_CONTEXT])]
             else [])"
    by blast
  then have "?plan \<and> ?plain"
    by (simp add: mergeAdjacentSegments_def textNodeToSegment_def textNode_def)
  with ty walk show ?thesis by blast
qed

section \<open>Lists\<close>

lemma concatMapE_filter:
  assumes "\<And>x. \<not> Q x \<Longrightarrow> f x = Inr []"
  shows "concatMapE f xs = concatMapE f (filter Q xs)"
  using assms by (induction xs) (simp_all add: concatMapE_Cons split: sum.splits)

lemma processBlock_list_items:
  assumes "isListType (nodeType b)" "content b = Some items"
  shows "processBlock b c =
     concatMapE (\<lambda>li. iterate (content li)
                   (concatMapE (\<lambda>listChild.
                      processBlock listChild (listCtx (listKindOf (nodeType b)) 1 c))))
       (filter isListItem items)"
proof -
  let ?item = "\<lambda>li. iterate (content li)
                   (concatMapE (\<lambda>listChild.
                      processBlock listChild (listCtx (listKindOf (nodeType b)) 1 c)))"
  let ?body = "\<lambda>child. if nodeType child = ''list-item'' then ?item child else Inr []"
  from assms have "processBlock b c = concatMapE ?body items"
    by (simp add: processBlock_list isListType_def iterate_def listCtx_def cong: if_cong)
  also have "\<dots> = concatMapE ?body (filter isListItem items)"
    by (rule concatMapE_filter) (simp add: isListItem_def)
  also have "\<dots> = concatMapE ?item (filter isListItem items)"
    by (rule concatMapE_cong) (simp_all add: isListItem_def)
  finally show ?thesis .
qed

lemma list_item_step:
  assumes "isListType (nodeType outer)" "content outer = Some items" "li \<in> set items"
    "isListItem li" "content li = Some bs" "inner \<in> set bs"
    "processBlock outer c = Inr segs"
  shows "\<exists>p r q. segs = p @ r @ q \<and>
           processBlock inner (listCtx (listKindOf (nodeType outer)) 1 c) = Inr r"
proof -
  let ?c' = "listCtx (listKindOf (nodeType outer)) 1 c"
  let ?item = "\<lambda>li. iterate (content li) (concatMapE (\<lambda>listChild. processBlock listChild ?c'))"
  from assms have "concatMapE ?item (filter isListItem items) = Inr segs"
    by (simp add: processBlock_list_items)
  moreover from assms have "li \<in> set (filter isListItem items)" by simp
  ultimately obtain p1 r1 q1 where r1: "?item li = Inr r1" "segs = p1 @ r1 @ q1"
    by (blast dest: concatMapE_member)
  from r1(1) assms(5) have "concatMapE (\<lambda>listChild. processBlock listChild ?c') bs = Inr r1"
    by (simp add: iterate_def)
  with assms(6) obtain p2 r q2 where "processBlock inner ?c' = Inr r" "r1 = p2 @ r @ q2"
    by (blast dest: concatMapE_member)
  with r1(2) have "segs = (p1 @ p2) @ r @ (q2 @ q1)" "processBlock inner ?c' = Inr r"
    by simp_all
  then show ?thesis by blast
qed

lemma listCtx_listCtx: "listCtx kind' (Suc 0) (listCtx kind k c) = listCtx kind' (Suc k) c"
  by (simp add: listCtx_def)

lemma listNested_walk:
  assumes "listNested outer k kind inner" "processBlock outer c = Inr segs"
  shows "\<exists>p r q. segs = p @ r @ q \<and> processBlock inner (listCtx kind k c) = Inr r"
  using assms
proof (induction arbitrary: segs rule: listNested.induct)
  case (item outer items li bs inner)
  then show ?case by (rule list_item_step)
next
  case (deeper outer k kind mid items li bs inner)
  from deeper.IH [OF deeper.prems] obtain p r q where
    mid: "segs = p @ r @ q" "processBlock mid (listCtx kind k c) = Inr r"
    by blast
  from deeper.hyps(2-7) mid(2) obtain p' r' q' where
    "r = p' @ r' @ q'"
    "processBlock inner (listCtx (listKindOf (nodeType mid)) 1 (listCtx kind k c)) = Inr r'"
    by (blast dest: list_item_step)
  with mid(1) have "segs = (p @ p') @ r' @ (q' @ q)"
    "processBlock inner (listCtx (listKindOf (nodeType mid)) (Suc k) c) = Inr r'"
    by (simp_all add: listCtx_listCtx)
  then show ?case by blast
qed

lemma collectSegmentsFromBlock_texts:
  assumes "content b = Some ts" "\<forall>t \<in> set ts. nodeType t = ''text''"
  shows "collectSegmentsFromBlock b c = Inr (map (\<lambda>t. textNodeToSegment t c) ts)"
proof -
  have "concatMapE (\<lambda>child.
          if nodeType child = ''text'' then Inr [textNodeToSegment child c]
          else if content child \<noteq> None \<and> \<not> isBlockNode (nodeType child) then
            collectSegmentsFromInline child c
          else if isBlockNode (nodeType child) then processBlock child c
          else Inr []) ts = Inr (map (\<lambda>t. textNodeToSegment t c) ts)"
    using assms(2) by (induction ts) (simp_all add: concatMapE_Cons)
  with assms(1) show ?thesis
    by (subst collectSegmentsFromBlock.simps) (simp add: iterate_def)
qed

lemma paragraph_texts:
  assumes "nodeType b = ''paragraph''" "content b = Some ts" "\<forall>t \<in> set ts. nodeType t = ''text''"
  shows "processBlock b c = Inr (map (\<lambda>t. textNodeToSegment t c) ts)"
  using assms by (simp add: processBlock_paragraph collectSegmentsFromBlock_texts)


lemma listScenario_nested: "listNested listScenarioOuter 2 ordered listScenarioInner"
proof -
  have "listNested listScenarioOuter 1 (listKindOf (nodeType listScenarioOuter)) listScenarioMid"
    by (rule listNested.item
          [where items = "[textNode ''skipped'' [],
             blockNode ''list-item'' (JObj []) [paragraphNode [textNode ''a'' []], listScenarioMid]]"
           and li = "blockNode ''list-item'' (JObj []) [paragraphNode [textNode ''a'' []], listScenarioMid]"
           and bs = "[paragraphNode [textNode ''a'' []], listScenarioMid]"])
       (simp_all add: listScenarioOuter_def blockNode_def isListType_def isListItem_def)
  then have "listNested listScenarioOuter (Suc 1) (listKindOf (nodeType listScenarioMid))
      listScenarioInner"
    by (rule listNested.deeper
          [where items = "[blockNode ''list-item'' (JObj []) [listScenarioInner]]"
           and li = "blockNode ''list-item'' (JObj []) [listScenarioInner]"
           and bs = "[listScenarioInner]"])
       (simp_all add: listScenarioMid_def blockNode_def isListType_def isListItem_def)
  then show ?thesis
    by (simp add: listScenarioMid_def blockNode_def listKindOf_def numeral_2_eq_2)
qed

lemma listScenario_walk:
  "processBlock listScenarioOuter DEFAULT_CONTEXT =
     Inr [(textNodeToSegment (textNode ''a'' []) DEFAULT_CONTEXT)
            \<lparr>listType := Some unordered, listIndent := 1\<rparr>,
          (textNodeToSegment (textNode ''b'' []) DEFAULT_CONTEXT)
            \<lparr>listType := Some ordered, listIndent := 2\<rparr>]"
  by code_simp

text \<open>
  C7. A list block walked with context \<open>c\<close> walks the content blocks of its
  \<open>list-item\<close> children, and of those only, with the list type of its kind and the
  indent of \<open>c\<close> plus one. A block that is \<open>k\<close> levels of list items below a list is
  therefore walked with the indent of \<open>c\<close> plus \<open>k\<close> and the kind of the innermost list,
  whatever the kinds of the lists around it, and its segments are part of the result; when
  it is a paragraph of Text leaves and the walk starts from the root context, its segments
  have \<open>listIndent = k\<close>.
\<close>

theorem list_indent_by_depth:
  "(isListType (nodeType b) \<and> content b = Some items \<longrightarrow>
      processBlock b c =
        concatMapE
          (\<lambda>li. iterate (content li)
             (concatMapE (\<lambda>listChild.
                processBlock listChild
                  (c\<lparr>ctx_listType := Some (listKindOf (nodeType b)),
                     ctx_listIndent := ctx_listIndent c + 1\<rparr>))))
          (filter (\<lambda>child. nodeType child = ''list-item'') items)) \<and>
   (listNested outer k kind inner \<and> processBlock outer c = Inr segs \<longrightarrow>
      (\<exists>p r q. segs = p @ r @ q \<and>
         processBlock inner
           (c\<lparr>ctx_listType := Some kind, ctx_listIndent := ctx_listIndent c + k\<rparr>) = Inr r)) \<and>
   (listNested outer k kind inner \<and> processBlock outer DEFAULT_CONTEXT = Inr segs \<and>
    nodeType inner = ''paragraph'' \<and> content inner = Some ts \<and>
    (\<forall>t \<in> set ts. nodeType t = ''text'') \<longrightarrow>
      (\<exists>p q. segs =
         p @ map (\<lambda>t. (textNodeToSegment t DEFAULT_CONTEXT)
                       \<lparr>listType := Some kind, listIndent := k\<rparr>) ts @ q))"
proof (intro conjI impI)
  assume "isListType (nodeType b) \<and> content b = Some items"
  then have "processBlock b c =
     concatMapE (\<lambda>li. iterate (content li)
                   (concatMapE (\<lambda>listChild.
                      processBlock listChild (listCtx (listKindOf (nodeType b)) 1 c))))
       (filter isListItem items)"
    by (simp add: processBlock_list_items)
  moreover have "isListItem = (\<lambda>child. nodeType child = ''list-item'')"
    by (simp add: isListItem_def fun_eq_iff)
  ultimately show "processBlock b c =
        concatMapE
          (\<lambda>li. iterate (content li)
             (concatMapE (\<lambda>listChild.
                processBlock listChild
                  (c\<lparr>ctx_listType := Some (listKindOf (nodeType b)),
                     ctx_listIndent := ctx_listIndent c + 1\<rparr>))))
          (filter (\<lambda>child. nodeType child = ''list-item'') items)"
    by (simp add: listCtx_def)
next
  assume "listNested outer k kind inner \<and> processBlock outer c = Inr segs"
  then have "\<exists>p r q. segs = p @ r @ q \<and> processBlock inner (listCtx kind k c) = Inr r"
    by (blast intro: listNested_walk)
  then show "\<exists>p r q. segs = p @ r @ q \<and>
         processBlock inner
           (c\<lparr>ctx_listType := Some kind, ctx_listIndent := ctx_listIndent c + k\<rparr>) = Inr r"
    by (simp add: listCtx_def)
next
  assume a: "listNested outer k kind inner \<and> processBlock outer DEFAULT_CONTEXT = Inr segs \<and>
    nodeType inner = ''paragraph'' \<and> content inner = Some ts \<and>
    (\<forall>t \<in> set ts. nodeType t = ''text'')"
  then obtain p r q where r: "segs = p @ r @ q"
    "processBlock inner (listCtx kind k DEFAULT_CONTEXT) = Inr r"
    by (blast dest: listNested_walk)
  from a have "processBlock inner (listCtx kind k DEFAULT_CONTEXT) =
      Inr (map (\<lambda>t. textNodeToSegment t (listCtx kind k DEFAULT_CONTEXT)) ts)"
    by (simp add: paragraph_texts)
  moreover have "textNodeToSegment t (listCtx kind k DEFAULT_CONTEXT) =
      (textNodeToSegment t DEFAULT_CONTEXT)\<lparr>listType := Some kind, listIndent := k\<rparr>" for t
    by (simp add: textNodeToSegment_def listCtx_def DEFAULT_CONTEXT_def)
  ultimately show "\<exists>p q. segs =
         p @ map (\<lambda>t. (textNodeToSegment t DEFAULT_CONTEXT)
                       \<lparr>listType := Some kind, listIndent := k\<rparr>) ts @ q"
    using r by auto
qed

theorem list_indent_by_depth_witness:
  "isListType (nodeType listScenarioOuter) \<and>
   processBlock listScenarioOuter DEFAULT_CONTEXT =
     concatMapE
       (\<lambda>li. iterate (content li)
          (concatMapE (\<lambda>listChild.
             processBlock listChild
               (DEFAULT_CONTEXT\<lparr>ctx_listType := Some (listKindOf (nodeType listScenarioOuter)),
                  ctx_listIndent := ctx_listIndent DEFAULT_CONTEXT + 1\<rparr>))))
       (filter (\<lambda>child. nodeType child = ''list-item'')
          [textNode ''skipped'' [],
           blockNode ''list-item'' (JObj []) [paragraphNode [textNode ''a'' []], listScenarioMid]]) \<and>
   listNested listScenarioOuter 2 ordered listScenarioInner \<and>
   processBlock listScenarioOuter DEFAULT_CONTEXT =
     Inr [(textNodeToSegment (textNode ''a'' []) DEFAULT_CONTEXT)
            \<lparr>listType := Some unordered, listIndent := 1\<rparr>,
          (textNodeToSegment (textNode ''b'' []) DEFAULT_CONTEXT)
            \<lparr>listType := Some ordered, listIndent := 2\<rparr>] \<and>
   (\<exists>p r q. [(textNodeToSegment (textNode ''a'' []) DEFAULT_CONTEXT)
            \<lparr>listType := Some unordered, listIndent := 1\<rparr>,
          (textNodeToSegment (textNode ''b'' []) DEFAULT_CONTEXT)
            \<lparr>listType := Some ordered, listIndent := 2\<rparr>] = p @ r @ q \<and>
      processBlock listScenarioInner
        (DEFAULT_CONTEXT\<lparr>ctx_listType := Some ordered,
           ctx_listIndent := ctx_listIndent DEFAULT_CONTEXT + 2\<rparr>) = Inr r) \<and>
   (\<exists>p q. [(textNodeToSegment (textNode ''a'' []) DEFAULT_CONTEXT)
            \<lparr>listType := Some unordered, listIndent := 1\<rparr>,
          (textNodeToSegment (textNode ''b'' []) DEFAULT_CONTEXT)
            \<lparr>listType := Some ordered, listIndent := 2\<rparr>] =
      p @ map (\<lambda>t. (textNodeToSegment t DEFAULT_CONTEXT)
                    \<lparr>listType := Some ordered, listIndent := 2\<rparr>) [textNode ''b'' []] @ q)"
  (is "?ty \<and> ?items \<and> ?nested \<and> ?run \<and> ?ctx \<and> ?segs")
proof -
  have ty: ?ty
    by (simp add: listScenarioOuter_def blockNode_def isListType_def)
  have c: "content listScenarioOuter =
      Some [textNode ''skipped'' [],
            blockNode ''list-item'' (JObj []) [paragraphNode [textNode ''a'' []], listScenarioMid]]"
    by (simp add: listScenarioOuter_def blockNode_def)
  from ty c have p1: "isListType (nodeType listScenarioOuter) \<and>
      content listScenarioOuter =
        Some [textNode ''skipped'' [],
              blockNode ''list-item'' (JObj []) [paragraphNode [textNode ''a'' []], listScenarioMid]]"
    by (intro conjI)
  have items: ?items
    by (rule list_indent_by_depth [THEN conjunct1, THEN mp, OF p1])
  note nested = listScenario_nested
  note run = listScenario_walk
  from nested run have p2: "listNested listScenarioOuter 2 ordered listScenarioInner \<and>
      processBlock listScenarioOuter DEFAULT_CONTEXT =
        Inr [(textNodeToSegment (textNode ''a'' []) DEFAULT_CONTEXT)
               \<lparr>listType := Some unordered, listIndent := 1\<rparr>,
             (textNodeToSegment (textNode ''b'' []) DEFAULT_CONTEXT)
               \<lparr>listType := Some ordered, listIndent := 2\<rparr>]"
    by (intro conjI)
  have ctx: ?ctx
    by (rule list_indent_by_depth [THEN conjunct2, THEN conjunct1, THEN mp, OF p2])
  have "nodeType listScenarioInner = ''paragraph''"
    "content listScenarioInner = Some [textNode ''b'' []]"
    "\<forall>t \<in> set [textNode ''b'' []]. nodeType t = ''text''"
    by (simp_all add: listScenarioInner_def paragraphNode_def blockNode_def textNode_def)
  with nested run have p3: "listNested listScenarioOuter 2 ordered listScenarioInner \<and>
      processBlock listScenarioOuter DEFAULT_CONTEXT =
        Inr [(textNodeToSegment (textNode ''a'' []) DEFAULT_CONTEXT)
               \<lparr>listType := Some unordered, listIndent := 1\<rparr>,
             (textNodeToSegment (textNode ''b'' []) DEFAULT_CONTEXT)
               \<lparr>listType := Some ordered, listIndent := 2\<rparr>] \<and>
      nodeType listScenarioInner = ''paragraph'' \<and>
      content listScenarioInner = Some [textNode ''b'' []] \<and>
      (\<forall>t \<in> set [textNode ''b'' []]. nodeType t = ''text'')"
    by (intro conjI)
  have segs: ?segs
    by (rule list_indent_by_depth [THEN conjunct2, THEN conjunct2, THEN mp, OF p3])
  from ty items nested run ctx segs show ?thesis by (intro conjI)
qed

section \<open>Headings\<close>

lemma hasHeading_child:
  "\<not> hasHeading b \<Longrightarrow> content b = Some cs \<Longrightarrow> x \<in> set cs \<Longrightarrow> \<not> hasHeading x"
  by (cases b) auto

lemma hasHeading_type: "\<not> hasHeading b \<Longrightarrow> \<not> prefix ''heading-'' (nodeType b)"
  by (cases b) auto

lemma levelIn_inline: "holds (levelIn (ctx_headingLevel c)) (collectSegmentsFromInline n c)"
  unfolding collectSegmentsFromInline_def
  by (rule holds_iterate)
     (auto simp: Let_def list_all_iff levelIn_def linkSegment_def textNodeToSegment_def)

lemma levelIn_walk:
  "\<not> hasHeading b \<Longrightarrow> holds (levelIn (ctx_headingLevel c)) (processBlock b c)"
  "(\<And>cs x. content b = Some cs \<Longrightarrow> x \<in> set cs \<Longrightarrow> \<not> hasHeading x) \<Longrightarrow>
     holds (levelIn (ctx_headingLevel c)) (collectSegmentsFromBlock b c)"
proof (induction b c and b c rule: processBlock_collectSegmentsFromBlock.induct)
  case (1 block parentCtx)
  note free = hasHeading_child [OF "1.prems"]
  show ?case
  proof (cases "nodeType block" rule: nodeType_cases)
    case heading
    with "1.prems" show ?thesis by (simp add: hasHeading_type)
  next
    case para
    with 1(2) free show ?thesis by (simp add: processBlock_paragraph)
  next
    case blockquote
    have "holds (levelIn (ctx_headingLevel parentCtx))
            (processBlock x (parentCtx\<lparr>isBlockquote := True\<rparr>))"
      if "content block = Some xs" "x \<in> set xs" for xs x
      using 1(3) [OF _ _ blockquote that free [OF that]] blockquote by simp
    then show ?thesis
      using blockquote
      by (simp add: processBlock_blockquote) (intro holds_iterate holds_concatMapE)
  next
    case list
    have "holds (levelIn (ctx_headingLevel parentCtx))
            (processBlock lc (parentCtx\<lparr>ctx_listType := Some (listKindOf (nodeType block)),
                                 ctx_listIndent := ctx_listIndent parentCtx + 1\<rparr>))"
      if "content block = Some xs" "x \<in> set xs" "nodeType x = ''list-item''"
         "content x = Some ys" "lc \<in> set ys" for xs x ys lc
    proof -
      from free that(1,2) have "\<not> hasHeading x" .
      from hasHeading_child [OF this that(4,5)] have "\<not> hasHeading lc" .
      with 1(4) [OF _ _ _ list that] list show ?thesis
        by (auto simp: listKindOf_def)
    qed
    then show ?thesis
      using list
      by (simp add: processBlock_list)
         (intro holds_iterate holds_concatMapE, auto intro!: holds_iterate holds_concatMapE)
  next
    case table
    then show ?thesis
      by (simp add: processBlock_table)
         (intro holds_iterate holds_concatMapE,
          auto simp: levelIn_def tableRowSegment_def split: sum.splits)
  next
    case cell
    have "holds (levelIn (ctx_headingLevel parentCtx)) (processBlock x parentCtx)"
      if "content block = Some xs" "x \<in> set xs" for xs x
      using 1(6) [OF _ _ _ _ _ cell that free [OF that]] cell by auto
    then show ?thesis
      using cell by (simp add: processBlock_cell) (intro holds_iterate holds_concatMapE)
  next
    case fallback
    with 1(7) free show ?thesis
      by (simp add: processBlock_fallback isFallback_def)
  qed
next
  case (2 block ctx)
  have "holds (levelIn (ctx_headingLevel ctx))
          (if nodeType x = ''text'' then Inr [textNodeToSegment x ctx]
           else if content x \<noteq> None \<and> \<not> isBlockNode (nodeType x) then
             collectSegmentsFromInline x ctx
           else if isBlockNode (nodeType x) then processBlock x ctx
           else Inr [])"
    if "content block = Some xs" "x \<in> set xs" for xs x
  proof -
    have "levelIn (ctx_headingLevel ctx) (textNodeToSegment x ctx)"
      by (simp add: levelIn_def textNodeToSegment_def)
    moreover have "holds (levelIn (ctx_headingLevel ctx)) (processBlock x ctx)"
      if "nodeType x \<noteq> ''text''" "\<not> (content x \<noteq> None \<and> \<not> isBlockNode (nodeType x))"
        "isBlockNode (nodeType x)"
      using "2.IH" [OF \<open>content block = Some xs\<close> \<open>x \<in> set xs\<close> that]
        "2.prems" [OF \<open>content block = Some xs\<close> \<open>x \<in> set xs\<close>] .
    ultimately show ?thesis
      by (simp add: levelIn_inline)
  qed
  then show ?case
    by (subst collectSegmentsFromBlock.simps) (intro holds_iterate holds_concatMapE)
qed


lemma headingLevelFromNodeType_levels:
  "headingLevelFromNodeType ''heading-1'' = 1 \<and> headingLevelFromNodeType ''heading-2'' = 2 \<and>
   headingLevelFromNodeType ''heading-3'' = 3 \<and> headingLevelFromNodeType ''heading-4'' = 4 \<and>
   headingLevelFromNodeType ''heading-5'' = 5 \<and> headingLevelFromNodeType ''heading-6'' = 6"
  by code_simp

lemma headingFree_walk:
  assumes "\<not> hasHeading b" "processBlock b c = Inr segs" "s \<in> set segs"
  shows "headingLevel s = ctx_headingLevel c \<or> headingLevel s = 0"
  using levelIn_walk(1) [OF assms(1), of c] assms(2,3)
  by (simp add: list_all_iff levelIn_def)

lemma headingFree_top:
  assumes b: "\<not> hasHeading b" and res: "renderTopBlock b = Inr out" and rb: "rb \<in> set out"
  shows "list_all (\<lambda>s. headingLevel s = 0) (blockSegments rb)"
proof -
  have fmt: "headingLevel a = 0 \<Longrightarrow> headingLevel b = 0" if "formatting a = formatting b"
    for a b :: segment
    using that by (simp add: formatting_def)
  have child: "\<not> hasHeading x" if "\<not> hasHeading n" "content n = Some cs" "x \<in> set cs" for n cs x
    using that by (rule hasHeading_child)
  have walk: "holds (\<lambda>s. headingLevel s = 0) (processBlock n DEFAULT_CONTEXT)"
    if "\<not> hasHeading n" for n
  proof -
    have "levelIn 0 = (\<lambda>s. headingLevel s = 0)"
      by (simp add: fun_eq_iff levelIn_def)
    with levelIn_walk(1) [OF that, of DEFAULT_CONTEXT] show ?thesis
      by (simp add: DEFAULT_CONTEXT_def)
  qed
  have ph: "headingLevel (entryPlaceholder t) = 0" for t
    by (simp add: entryPlaceholder_def)
  from fmt child walk ph b res rb show ?thesis
    by (rule renderTopBlock_list_all [where Q = "\<lambda>n. \<not> hasHeading n"])
qed

text \<open>
  The statement of C6 that a sibling after a heading yields only segments of heading level
  0 unless it is itself a heading fails: an unordered list after a \<open>heading-1\<close> is not a
  heading, and the \<open>heading-2\<close> inside its list item gives its segment the level 2.
\<close>

theorem heading_inside_sibling_counterexample:
  "\<not> prefix ''heading-'' (nodeType headingInListScenario) \<and>
   documentToRenderPlan (makeDoc [headingScenario, headingInListScenario]) =
     Inr \<lparr>blocks =
       [TextBlock [\<lparr>seg_text = ''Title'', bold = False, italic = False, underline = False,
                    code = False, headingLevel = 1, listType = None, listIndent = 0,
                    hyperlink = None\<rparr>],
        TextBlock [\<lparr>seg_text = ''Sub'', bold = False, italic = False, underline = False,
                    code = False, headingLevel = 2, listType = Some unordered, listIndent = 1,
                    hyperlink = None\<rparr>]]\<rparr>"
  by code_simp

text \<open>
  C6 (amended). A \<open>heading-N\<close> block, \<open>N\<close> from 1 to 6, walks its content with heading
  level \<open>N\<close>. A block with no heading node in its subtree yields only segments of the
  heading level of its context or of level 0. Every top-level block is rendered on its own,
  whatever precedes it: in the plan its blocks stand between those of the blocks before it
  and those of the blocks after it, and when no node of its subtree is a heading all its
  segments have heading level 0.
\<close>

theorem heading_level_local:
  "headingLevelFromNodeType ''heading-1'' = 1 \<and> headingLevelFromNodeType ''heading-2'' = 2 \<and>
   headingLevelFromNodeType ''heading-3'' = 3 \<and> headingLevelFromNodeType ''heading-4'' = 4 \<and>
   headingLevelFromNodeType ''heading-5'' = 5 \<and> headingLevelFromNodeType ''heading-6'' = 6 \<and>
   (prefix ''heading-'' (nodeType b) \<longrightarrow>
      processBlock b c =
        collectSegmentsFromBlock b
          (c\<lparr>ctx_headingLevel := headingLevelFromNodeType (nodeType b)\<rparr>)) \<and>
   (\<not> hasHeading b \<and> processBlock b c = Inr segs \<longrightarrow>
      (\<forall>s \<in> set segs. headingLevel s = ctx_headingLevel c \<or> headingLevel s = 0)) \<and>
   (content doc = Some (pre @ b # post) \<and> documentToRenderPlan doc = Inr plan \<and>
    \<not> hasHeading b \<longrightarrow>
      (\<exists>p out q. concatMapE renderTopBlock pre = Inr p \<and> renderTopBlock b = Inr out \<and>
         concatMapE renderTopBlock post = Inr q \<and> blocks plan = p @ out @ q \<and>
         (\<forall>rb \<in> set out. \<forall>s \<in> set (blockSegments rb). headingLevel s = 0)))"
proof -
  have walk: "\<not> hasHeading b \<and> processBlock b c = Inr segs \<longrightarrow>
      (\<forall>s \<in> set segs. headingLevel s = ctx_headingLevel c \<or> headingLevel s = 0)"
  proof (intro impI ballI)
    fix s
    assume "\<not> hasHeading b \<and> processBlock b c = Inr segs" "s \<in> set segs"
    then show "headingLevel s = ctx_headingLevel c \<or> headingLevel s = 0"
      using headingFree_walk [of b c segs s] by simp
  qed
  have top: "content doc = Some (pre @ b # post) \<and> documentToRenderPlan doc = Inr plan \<and>
    \<not> hasHeading b \<longrightarrow>
      (\<exists>p out q. concatMapE renderTopBlock pre = Inr p \<and> renderTopBlock b = Inr out \<and>
         concatMapE renderTopBlock post = Inr q \<and> blocks plan = p @ out @ q \<and>
         (\<forall>rb \<in> set out. \<forall>s \<in> set (blockSegments rb). headingLevel s = 0))"
  proof
    assume a: "content doc = Some (pre @ b # post) \<and> documentToRenderPlan doc = Inr plan \<and>
      \<not> hasHeading b"
    then obtain p out q where o: "concatMapE renderTopBlock pre = Inr p"
      "renderTopBlock b = Inr out" "concatMapE renderTopBlock post = Inr q"
      "blocks plan = p @ out @ q"
      by (blast dest: plan_at_position)
    have "\<forall>rb \<in> set out. \<forall>s \<in> set (blockSegments rb). headingLevel s = 0"
    proof (intro ballI)
      fix rb s
      assume "rb \<in> set out" "s \<in> set (blockSegments rb)"
      moreover from a have "\<not> hasHeading b" by simp
      ultimately show "headingLevel s = 0"
        using headingFree_top [of b out rb] o(2) by (simp add: list_all_iff)
    qed
    with o show "\<exists>p out q. concatMapE renderTopBlock pre = Inr p \<and> renderTopBlock b = Inr out \<and>
         concatMapE renderTopBlock post = Inr q \<and> blocks plan = p @ out @ q \<and>
         (\<forall>rb \<in> set out. \<forall>s \<in> set (blockSegments rb). headingLevel s = 0)"
      by blast
  qed
  have heading: "prefix ''heading-'' (nodeType b) \<longrightarrow>
      processBlock b c =
        collectSegmentsFromBlock b
          (c\<lparr>ctx_headingLevel := headingLevelFromNodeType (nodeType b)\<rparr>)"
    by (simp add: processBlock_heading)
  note levels = headingLevelFromNodeType_levels
  show ?thesis
    by (intro conjI levels [THEN conjunct1] levels [THEN conjunct2, THEN conjunct1]
        levels [THEN conjunct2, THEN conjunct2, THEN conjunct1]
        levels [THEN conjunct2, THEN conjunct2, THEN conjunct2, THEN conjunct1]
        levels [THEN conjunct2, THEN conjunct2, THEN conjunct2, THEN conjunct2, THEN conjunct1]
        levels [THEN conjunct2, THEN conjunct2, THEN conjunct2, THEN conjunct2, THEN conjunct2]
        heading walk top)
qed

theorem heading_level_local_witness:
  "prefix ''heading-'' (nodeType headingScenario) \<and>
   processBlock headingScenario DEFAULT_CONTEXT =
     collectSegmentsFromBlock headingScenario
       (DEFAULT_CONTEXT\<lparr>ctx_headingLevel := headingLevelFromNodeType (nodeType headingScenario)\<rparr>) \<and>
   headingLevelFromNodeType (nodeType headingScenario) = 1 \<and>
   \<not> hasHeading (paragraphNode [textNode ''Body'' []]) \<and>
   processBlock (paragraphNode [textNode ''Body'' []]) DEFAULT_CONTEXT =
     Inr [textNodeToSegment (textNode ''Body'' []) DEFAULT_CONTEXT] \<and>
   list_all (\<lambda>s. headingLevel s = ctx_headingLevel DEFAULT_CONTEXT \<or> headingLevel s = 0)
     [textNodeToSegment (textNode ''Body'' []) DEFAULT_CONTEXT] \<and>
   documentToRenderPlan (makeDoc [headingScenario, paragraphNode [textNode ''Body'' []]]) =
     Inr \<lparr>blocks =
       [TextBlock [(textNodeToSegment (textNode ''Title'' []) DEFAULT_CONTEXT)\<lparr>headingLevel := 1\<rparr>],
        TextBlock [textNodeToSegment (textNode ''Body'' []) DEFAULT_CONTEXT]]\<rparr> \<and>
   (\<exists>p out q. concatMapE renderTopBlock [headingScenario] = Inr p \<and>
      renderTopBlock (paragraphNode [textNode ''Body'' []]) = Inr out \<and>
      concatMapE renderTopBlock [] = Inr q \<and>
      blocks \<lparr>blocks =
        [TextBlock [(textNodeToSegment (textNode ''Title'' []) DEFAULT_CONTEXT)\<lparr>headingLevel := 1\<rparr>],
         TextBlock [textNodeToSegment (textNode ''Body'' []) DEFAULT_CONTEXT]]\<rparr> = p @ out @ q \<and>
      (\<forall>rb \<in> set out. \<forall>s \<in> set (blockSegments rb). headingLevel s = 0))"
  (is "?ty \<and> ?walk \<and> ?level \<and> ?free \<and> ?body \<and> ?zero \<and> ?run \<and> ?local")
proof -
  note step = heading_level_local [THEN conjunct2, THEN conjunct2, THEN conjunct2, THEN conjunct2,
      THEN conjunct2, THEN conjunct2]
  have ty: ?ty by code_simp
  have walk: ?walk
    by (rule step [THEN conjunct1, THEN mp, OF ty])
  have level: ?level by code_simp
  have free: ?free by code_simp
  have body: ?body by code_simp
  from free body have p2: "\<not> hasHeading (paragraphNode [textNode ''Body'' []]) \<and>
      processBlock (paragraphNode [textNode ''Body'' []]) DEFAULT_CONTEXT =
        Inr [textNodeToSegment (textNode ''Body'' []) DEFAULT_CONTEXT]"
    by (intro conjI)
  have zero: ?zero
    unfolding list_all_iff
    by (rule step [THEN conjunct2, THEN conjunct1, THEN mp, OF p2])
  have run: ?run by code_simp
  have c: "content (makeDoc [headingScenario, paragraphNode [textNode ''Body'' []]]) =
      Some ([headingScenario] @ paragraphNode [textNode ''Body'' []] # [])"
    by (simp add: makeDoc_def)
  from c run free have prem:
    "content (makeDoc [headingScenario, paragraphNode [textNode ''Body'' []]]) =
       Some ([headingScenario] @ paragraphNode [textNode ''Body'' []] # []) \<and>
     documentToRenderPlan (makeDoc [headingScenario, paragraphNode [textNode ''Body'' []]]) =
       Inr \<lparr>blocks =
         [TextBlock [(textNodeToSegment (textNode ''Title'' []) DEFAULT_CONTEXT)\<lparr>headingLevel := 1\<rparr>],
          TextBlock [textNodeToSegment (textNode ''Body'' []) DEFAULT_CONTEXT]]\<rparr> \<and>
     \<not> hasHeading (paragraphNode [textNode ''Body'' []])"
    by (intro conjI)
  have loc: ?local
    by (rule step [THEN conjunct2, THEN conjunct2, THEN mp, OF prem])
  from ty walk level free body zero run loc show ?thesis by (intro conjI)
qed

end
